theory Spec2Isabelle
  imports Complex_Main "HOL-Library.Log_Nat"
begin

section \<open>Strings and JavaScript truthiness\<close>

text \<open>
  A JavaScript string is modelled as a \<open>string\<close>; one \<open>char\<close> stands for one code unit,
  so \<open>length\<close> is \<open>String.prototype.length\<close>.  A value of type \<open>string | null\<close> is a
  \<open>string option\<close>.  The tests \<open>if (next)\<close>, \<open>!userToken\<close>, \<open>!adminToken\<close> and
  \<open>userToken && userRecord\<close> are JavaScript truthiness tests: \<open>null\<close> and the empty string
  are both falsy, every other string is truthy; an object is truthy.  \<open>falsy\<close> is the
  test \<open>!x\<close>.
\<close>

definition truthy :: "string option \<Rightarrow> bool" where
  "truthy t = (case t of None \<Rightarrow> False | Some v \<Rightarrow> v \<noteq> [])"

definition falsy :: "string option \<Rightarrow> bool" where
  "falsy t = (case t of None \<Rightarrow> True | Some v \<Rightarrow> v = [])"

definition startsWith :: "string \<Rightarrow> string \<Rightarrow> bool" where
  "startsWith s pre = (take (length pre) s = pre)"

section \<open>Path normalisation (\<open>normalizePath\<close>)\<close>

text \<open>
  \<open>path.replace(/\/+$/, "")\<close>: the pattern has no \<open>g\<close> or \<open>m\<close> flag, so it matches once, the
  maximal run of slashes that ends the string, and removes it.
\<close>

definition stripTrailingSlashes :: "string \<Rightarrow> string" where
  "stripTrailingSlashes p = rev (dropWhile (\<lambda>c. c = CHR ''/'') (rev p))"

definition normalizePath :: "string \<Rightarrow> string" where
  "normalizePath p =
     (if length p \<le> 1 then ''/''
      else (let r = stripTrailingSlashes p in if r = [] then ''/'' else r))"

section \<open>The root component \<open>App\<close>\<close>

text \<open>
  The state of \<open>App\<close> is its six \<open>useState\<close> cells together with the two pieces of the
  browser it writes: \<open>localStorage\<close> and the session history (the current entry \<open>location\<close>
  and the entries behind it).  The types \<open>User\<close> and \<open>SiteMode\<close> come from \<open>core/types\<close>;
  \<open>App\<close> only tests a \<open>User\<close> for \<open>null\<close>, so the record is polymorphic in it, and it
  compares the site mode with the literal \<open>"personal"\<close>, so the mode is a string.
\<close>

record 'u app_state =
  adminToken :: "string option"
  userToken :: "string option"
  userRecord :: "'u option"
  siteMode :: "string option"
  notice :: string
  path :: string
  storage :: "string \<rightharpoonup> string"
  location :: string
  behind :: "string list"

text \<open>What one render pass of \<open>App\<close> returns.\<close>

datatype 'u view =
    LoginView string
  | AdminApp string
  | UserApp string 'u
  | PublicApp

text \<open>
  \<open>history.replaceState(null, "", t); setPath(t)\<close>.  A setter called while rendering does
  not change the constant \<open>path\<close> the pass has already read; it writes the cell the next
  pass reads, and of several calls in one pass the last one stands.
\<close>

definition replacePath :: "string \<Rightarrow> 'u app_state \<Rightarrow> 'u app_state" where
  "replacePath t s = s\<lparr>location := t, path := t\<rparr>"

text \<open>\<open>navigateTo\<close>: \<open>history.pushState(null, "", target); setPath(normalizePath(target))\<close>.\<close>

definition navigateTo :: "string \<Rightarrow> 'u app_state \<Rightarrow> 'u app_state" where
  "navigateTo target s =
     s\<lparr>behind := location s # behind s, location := target, path := normalizePath target\<rparr>"

definition updateAdminToken :: "string option \<Rightarrow> 'u app_state \<Rightarrow> 'u app_state" where
  "updateAdminToken next s =
     (let s1 = s\<lparr>adminToken := next\<rparr> in
      case next of
        Some v \<Rightarrow> (if v \<noteq> [] then s1\<lparr>storage := (storage s1)(''admin_token'' \<mapsto> v)\<rparr>
                   else s1\<lparr>storage := (storage s1)(''admin_token'' := None)\<rparr>)
      | None \<Rightarrow> s1\<lparr>storage := (storage s1)(''admin_token'' := None)\<rparr>)"

definition updateUserToken :: "string option \<Rightarrow> 'u app_state \<Rightarrow> 'u app_state" where
  "updateUserToken next s =
     (let s1 = s\<lparr>userToken := next\<rparr> in
      case next of
        Some v \<Rightarrow> (if v \<noteq> [] then s1\<lparr>storage := (storage s1)(''user_token'' \<mapsto> v)\<rparr>
                   else s1\<lparr>storage := (storage s1)(''user_token'' := None), userRecord := None\<rparr>)
      | None \<Rightarrow> s1\<lparr>storage := (storage s1)(''user_token'' := None), userRecord := None\<rparr>)"

definition handleUserLogin :: "string \<Rightarrow> 'u app_state \<Rightarrow> 'u app_state" where
  "handleUserLogin token s = navigateTo ''/user'' (updateUserToken (Some token) s)"

definition handleUserLogout :: "'u app_state \<Rightarrow> 'u app_state" where
  "handleUserLogout s = navigateTo ''/login'' (updateUserToken None s)"

text \<open>
  The effect on \<open>[userToken]\<close> (the profile check).  Without a truthy token it clears the
  record and sends nothing; with one it sends \<open>GET /api/u/auth/me\<close> carrying the token.
  The second component is the request sent, if any.
\<close>

definition loadUserEffect :: "'u app_state \<Rightarrow> 'u app_state \<times> (string \<times> string) option" where
  "loadUserEffect s =
     (if falsy (userToken s) then (s\<lparr>userRecord := None\<rparr>, None)
      else (s, Some (''/api/u/auth/me'', the (userToken s))))"

text \<open>When that request fails, the \<open>catch\<close> clears the token.\<close>

definition onProfileFailed :: "'u app_state \<Rightarrow> 'u app_state" where
  "onProfileFailed s = updateUserToken None s"

text \<open>The effect on mount: the site mode the server reports, \<open>"personal"\<close> when the fetch fails.\<close>

definition onSiteInfo :: "string option \<Rightarrow> 'u app_state \<Rightarrow> 'u app_state" where
  "onSiteInfo result s =
     (case result of Some m \<Rightarrow> s\<lparr>siteMode := Some m\<rparr> | None \<Rightarrow> s\<lparr>siteMode := Some ''personal''\<rparr>)"

text \<open>
  The body of \<open>App\<close> after its hooks, in source order: the homepage redirect, the
  personal-mode redirect, then the choice of the subtree.  Every test reads the values the
  pass started with (\<open>s\<close>); the redirects accumulate in the state handed on.
\<close>

definition homepageRedirect :: "'u app_state \<Rightarrow> 'u app_state \<Rightarrow> 'u app_state" where
  "homepageRedirect s acc =
     (if path s = ''/'' \<and> siteMode s \<noteq> None then
        (if siteMode s = Some ''personal'' then replacePath ''/admin'' acc
         else if truthy (userToken s) \<and> userRecord s \<noteq> None then replacePath ''/user'' acc
         else replacePath ''/login'' acc)
      else acc)"

definition personalRedirect :: "'u app_state \<Rightarrow> 'u app_state \<Rightarrow> 'u app_state" where
  "personalRedirect s acc =
     (if siteMode s = Some ''personal'' \<and> \<not> startsWith (path s) ''/admin''
      then replacePath ''/admin'' acc else acc)"

definition App :: "'u app_state \<Rightarrow> 'u app_state \<times> 'u view" where
  "App s =
     (let s2 = personalRedirect s (homepageRedirect s s) in
      if startsWith (path s) ''/admin'' then
        (if falsy (adminToken s) then (s2, LoginView (notice s))
         else (s2, AdminApp (the (adminToken s))))
      else if startsWith (path s) ''/user'' then
        (if falsy (userToken s) \<or> userRecord s = None then
           ((if path s \<noteq> ''/login'' then replacePath ''/login'' s2 else s2), PublicApp)
         else (s2, UserApp (the (userToken s)) (the (userRecord s))))
      else (s2, PublicApp))"

text \<open>
  A pass that calls \<open>setPath\<close> with a new value makes the component render again, with
  the cells as that pass left them.  \<open>passes n\<close> is the state after \<open>n\<close> passes in a row, no
  other event coming between them.
\<close>

primrec passes :: "nat \<Rightarrow> 'u app_state \<Rightarrow> 'u app_state" where
  "passes 0 s = s"
| "passes (Suc n) s = passes n (fst (App s))"

section \<open>JavaScript numbers\<close>

text \<open>
  A finite JavaScript number is modelled by the rational it denotes.  The result of an
  arithmetic operation is the exact result rounded to the nearest binary64 value, ties to
  the even significand (IEEE 754: 53 significant bits, least exponent \<open>-1022\<close>); a decimal
  literal such as \<open>0.01\<close> denotes the binary64 value nearest to it.  \<open>NaN\<close> and the
  infinities are not values of the model: every quantity below stays far under the largest
  binary64 value, and the one way this code could leave the finite numbers, a division by
  zero, is made a result of its own (\<open>jsdiv\<close>).
\<close>

definition roundHalfEven :: "rat \<Rightarrow> int" where
  "roundHalfEven x =
     (let f = \<lfloor>x\<rfloor>; d = x - of_int f in
      if d < 1 / 2 then f else if 1 / 2 < d then f + 1 else if even f then f else f + 1)"

text \<open>For \<open>0 < x\<close>, the exponent \<open>e\<close> with \<open>2 powi e \<le> x < 2 powi (e + 1)\<close>.\<close>

definition ilog2 :: "rat \<Rightarrow> int" where
  "ilog2 x = (if 1 \<le> x then bitlen \<lfloor>x\<rfloor> - 1 else - bitlen (\<lceil>1 / x\<rceil> - 1))"

definition binary64 :: "rat \<Rightarrow> rat" where
  "binary64 x =
     (if x = 0 then 0
      else (let a = \<bar>x\<bar>; e = max (ilog2 a) (- 1022); u = 2 powi (e - 52) in
            sgn x * of_int (roundHalfEven (a / u)) * u))"

definition fadd :: "rat \<Rightarrow> rat \<Rightarrow> rat" where
  "fadd a b = binary64 (a + b)"

definition fsub :: "rat \<Rightarrow> rat \<Rightarrow> rat" where
  "fsub a b = binary64 (a - b)"

definition fmul :: "rat \<Rightarrow> rat \<Rightarrow> rat" where
  "fmul a b = binary64 (a * b)"

text \<open>
  \<open>a / b\<close>.  JavaScript does not raise on a zero divisor, it yields an infinity or \<open>NaN\<close>;
  the model returns \<open>None\<close> there, so that a division by zero shows in the result.
\<close>

definition jsdiv :: "rat \<Rightarrow> rat \<Rightarrow> rat option" where
  "jsdiv a b = (if b = 0 then None else Some (binary64 (a / b)))"

subsection \<open>Numbers to strings\<close>

text \<open>\<open>String(n)\<close> for an integer \<open>n\<close>: its decimal digits, after a minus sign if negative.\<close>

fun digitsOf :: "nat \<Rightarrow> string" where
  "digitsOf n =
     (if n < 10 then [''0123456789'' ! n]
      else digitsOf (n div 10) @ [''0123456789'' ! (n mod 10)])"

declare digitsOf.simps [simp del]

definition stringOfInt :: "int \<Rightarrow> string" where
  "stringOfInt n = (if n < 0 then ''-'' @ digitsOf (nat (- n)) else digitsOf (nat n))"

text \<open>
  \<open>Number.prototype.toFixed(f)\<close> for a finite \<open>x\<close> of magnitude below \<open>10 ^ 21\<close>, as ECMA-262
  defines it on the exact value of \<open>x\<close>: a minus sign if \<open>x < 0\<close>; then the integer \<open>n\<close> for
  which \<open>n / 10 ^ f\<close> is nearest to \<open>\<bar>x\<bar>\<close>, the larger one of two; its digits, padded with
  zeros on the left to \<open>f + 1\<close> of them; and a point before the last \<open>f\<close> digits.
\<close>

definition toFixed :: "rat \<Rightarrow> nat \<Rightarrow> string" where
  "toFixed x f =
     (let s = (if x < 0 then ''-'' else []);
          n = nat \<lfloor>\<bar>x\<bar> * 10 ^ f + 1 / 2\<rfloor>;
          m = digitsOf n;
          z = (if length m \<le> f then replicate (f + 1 - length m) (CHR ''0'') @ m else m);
          k = length z
      in if f \<noteq> 0 then s @ take (k - f) z @ ''.'' @ drop (k - f) z else s @ m)"

section \<open>The model catalog (\<open>ModelsView\<close> and its helpers)\<close>

subsection \<open>Formatting\<close>

text \<open>
  \<open>formatNumber\<close> is applied to the request and token counts of a model, which are
  integers; \<open>String(n)\<close> is modelled for integers only, so the argument is an \<open>int\<close>.
  \<open>formatCost\<close> takes any finite number.
\<close>

definition formatNumber :: "int \<Rightarrow> string" where
  "formatNumber n =
     (if 1000000 \<le> n then toFixed (binary64 (of_int n / 1000000)) 1 @ ''M''
      else if 1000 \<le> n then toFixed (binary64 (of_int n / 1000)) 1 @ ''K''
      else stringOfInt n)"

definition formatCost :: "rat \<Rightarrow> string" where
  "formatCost n =
     (if n = 0 then ''$0''
      else if n < binary64 (1 / 100) then ''$'' @ toFixed n 4
      else ''$'' @ toFixed n 2)"

subsection \<open>\<open>MiniSparkline\<close>\<close>

record DailyPoint =
  day :: string
  requests :: rat
  tokens :: rat

definition width :: rat where "width = 120"
definition height :: rat where "height = 32"
definition padding :: rat where "padding = 2"

text \<open>
  What \<open>MiniSparkline\<close> returns: \<open>null\<close>, or the \<open>svg\<close> element with the points of the
  polyline and of the polygon.  The source joins the coordinates into the strings of the
  \<open>points\<close> attributes; the model keeps them as pairs of numbers.  \<open>NotFinite\<close> stands for
  a chart one of whose coordinates came out of a division by zero.
\<close>

datatype sparkline = Null | Svg "(rat \<times> rat) list" "(rat \<times> rat) list" | NotFinite

text \<open>\<open>Math.max(...values, 1)\<close> and \<open>Math.max(values.length - 1, 1)\<close>.\<close>

definition maxValue :: "rat list \<Rightarrow> rat" where
  "maxValue values = fold max values 1"

definition stepDivisor :: "rat list \<Rightarrow> rat" where
  "stepDivisor values = max (of_nat (length values) - 1) 1"

text \<open>The body of the \<open>map\<close> callback: the point of value \<open>v\<close> at index \<open>i\<close>.\<close>

definition point :: "rat \<Rightarrow> rat \<Rightarrow> rat \<Rightarrow> nat \<Rightarrow> (rat \<times> rat) option" where
  "point step mx v i =
     (case jsdiv v mx of
        None \<Rightarrow> None
      | Some q \<Rightarrow> Some (fadd padding (fmul (of_nat i) step),
                        fsub (fsub height padding) (fmul q (fsub height (fmul padding 2)))))"

definition MiniSparkline :: "DailyPoint list \<Rightarrow> sparkline" where
  "MiniSparkline data =
     (if length data = 0 then Null
      else (let values = map requests data; mx = maxValue values in
            case jsdiv (fsub width (fmul padding 2)) (stepDivisor values) of
              None \<Rightarrow> NotFinite
            | Some step \<Rightarrow>
                (case those (map (\<lambda>(v, i). point step mx v i) (zip values [0..<length values])) of
                   None \<Rightarrow> NotFinite
                 | Some points \<Rightarrow>
                     Svg points
                       ([(padding, fsub height padding)] @ points @
                        [(fadd padding (fmul (of_nat (length values) - 1) step),
                          fsub height padding)]))))"

subsection \<open>Search and pagination (\<open>ModelsView\<close>)\<close>

text \<open>
  \<open>ModelItem\<close> is declared in \<open>core/types\<close>; \<open>ModelsView\<close> itself reads only the identifier
  of an item, so any extension of this record is a model item.  \<open>String.prototype.toLowerCase\<close>
  follows the Unicode case mapping; it is a parameter of the model (\<open>lc\<close>), and nothing below
  depends on which function it is.
\<close>

record ModelItem =
  model_id :: string

primrec includesStr :: "string \<Rightarrow> string \<Rightarrow> bool" where
  "includesStr [] sub = (sub = [])"
| "includesStr (c # cs) sub = (startsWith (c # cs) sub \<or> includesStr cs sub)"

definition pageSizeOptions :: "int list" where
  "pageSizeOptions = [12, 24, 48]"

text \<open>The props (\<open>models\<close>) and the three \<open>useState\<close> cells of \<open>ModelsView\<close>.\<close>

record 'a mv_state =
  models :: "'a ModelItem_scheme list"
  search :: string
  pageSize :: int
  page :: int

definition filtered :: "(string \<Rightarrow> string) \<Rightarrow> 'a mv_state \<Rightarrow> 'a ModelItem_scheme list" where
  "filtered lc s =
     (if search s \<noteq> []
      then filter (\<lambda>m. includesStr (lc (model_id m)) (lc (search s))) (models s)
      else models s)"

definition total :: "(string \<Rightarrow> string) \<Rightarrow> 'a mv_state \<Rightarrow> int" where
  "total lc s = int (length (filtered lc s))"

text \<open>\<open>Math.max(1, Math.ceil(total / pageSize))\<close>.\<close>

definition totalPages :: "(string \<Rightarrow> string) \<Rightarrow> 'a mv_state \<Rightarrow> int" where
  "totalPages lc s = max 1 \<lceil>(of_int (total lc s) :: rat) / of_int (pageSize s)\<rceil>"

text \<open>
  \<open>buildPageItems\<close> comes from \<open>core/utils\<close> and is a parameter of the model (\<open>bpi\<close>): the
  list of page buttons and ellipsis marks for a current page and a page count.
\<close>

datatype page_item = PageNumber int | Ellipsis

text \<open>
  What the user can do.  A control that is not rendered (the pagination block when nothing
  matches) or is disabled fires no event, so its handler leaves the state alone.
\<close>

datatype 'a mv_event =
    Input string
  | NewModels "'a ModelItem_scheme list"
  | ClickPrev
  | ClickNext
  | ClickPage int
  | SelectPageSize int

definition handler ::
  "(string \<Rightarrow> string) \<Rightarrow> (int \<Rightarrow> int \<Rightarrow> page_item list) \<Rightarrow> 'a mv_event \<Rightarrow> 'a mv_state \<Rightarrow> 'a mv_state" where
  "handler lc bpi e s =
     (case e of
        Input v \<Rightarrow> s\<lparr>search := v\<rparr>
      | NewModels ms \<Rightarrow> s\<lparr>models := ms\<rparr>
      | ClickPrev \<Rightarrow>
          (if length (filtered lc s) = 0 \<or> page s \<le> 1 then s
           else s\<lparr>page := max 1 (page s - 1)\<rparr>)
      | ClickNext \<Rightarrow>
          (if length (filtered lc s) = 0 \<or> totalPages lc s \<le> page s then s
           else s\<lparr>page := min (totalPages lc s) (page s + 1)\<rparr>)
      | ClickPage item \<Rightarrow>
          (if length (filtered lc s) = 0 then s
           else if PageNumber item \<in> set (bpi (page s) (totalPages lc s)) then s\<lparr>page := item\<rparr>
           else s)
      | SelectPageSize n \<Rightarrow>
          (if length (filtered lc s) = 0 then s
           else if n \<in> set pageSizeOptions then s\<lparr>pageSize := n\<rparr>
           else s))"

text \<open>
  The two effects, run in source order after the render that follows a change.  An effect
  runs when one of its dependencies differs from the previous render (\<open>old\<close>); the second
  one updates the page functionally, so it sees what the first one wrote.
\<close>

definition resetEffect :: "'a mv_state \<Rightarrow> 'a mv_state \<Rightarrow> 'a mv_state" where
  "resetEffect old s =
     (if search s = search old \<and> pageSize s = pageSize old then s else s\<lparr>page := 1\<rparr>)"

definition clampEffect :: "(string \<Rightarrow> string) \<Rightarrow> 'a mv_state \<Rightarrow> 'a mv_state \<Rightarrow> 'a mv_state" where
  "clampEffect lc old s =
     (if totalPages lc s = totalPages lc old then s else s\<lparr>page := min (page s) (totalPages lc s)\<rparr>)"

definition dispatch ::
  "(string \<Rightarrow> string) \<Rightarrow> (int \<Rightarrow> int \<Rightarrow> page_item list) \<Rightarrow> 'a mv_state \<Rightarrow> 'a mv_event \<Rightarrow> 'a mv_state" where
  "dispatch lc bpi s e = clampEffect lc s (resetEffect s (handler lc bpi e s))"

text \<open>Mounting: the initial cells, then both effects once.\<close>

definition mount :: "(string \<Rightarrow> string) \<Rightarrow> 'a ModelItem_scheme list \<Rightarrow> 'a mv_state" where
  "mount lc ms =
     (let s0 = \<lparr>models = ms, search = [], pageSize = 12, page = 1\<rparr>;
          s1 = s0\<lparr>page := 1\<rparr>
      in s1\<lparr>page := min (page s1) (totalPages lc s1)\<rparr>)"

definition run ::
  "(string \<Rightarrow> string) \<Rightarrow> (int \<Rightarrow> int \<Rightarrow> page_item list) \<Rightarrow> 'a ModelItem_scheme list \<Rightarrow> 'a mv_event list \<Rightarrow> 'a mv_state" where
  "run lc bpi ms es = foldl (dispatch lc bpi) (mount lc ms) es"

text \<open>The range the page is kept in, as a predicate on a state.\<close>

definition settled :: "(string \<Rightarrow> string) \<Rightarrow> 'a mv_state \<Rightarrow> bool" where
  "settled lc s = (pageSize s \<in> set pageSizeOptions \<and> 1 \<le> page s \<and> page s \<le> totalPages lc s)"

section \<open>The monitoring view (\<open>MonitoringView\<close>)\<close>

text \<open>
  A success rate is a number or \<open>null\<close>.  \<open>rateColor\<close> and \<open>rateBg\<close> return class names:
  green is the good colour, yellow the warning, red the critical one and stone the
  neutral one.
\<close>

definition rateColor :: "rat option \<Rightarrow> string" where
  "rateColor rate =
     (case rate of
        None \<Rightarrow> ''text-stone-400''
      | Some r \<Rightarrow>
          if 99 \<le> r then ''text-green-600''
          else if 95 \<le> r then ''text-yellow-600''
          else ''text-red-600'')"

definition rateBg :: "rat option \<Rightarrow> string" where
  "rateBg rate =
     (case rate of
        None \<Rightarrow> ''bg-stone-100''
      | Some r \<Rightarrow>
          if 99 \<le> r then ''bg-green-50''
          else if 95 \<le> r then ''bg-yellow-50''
          else ''bg-red-50'')"

text \<open>
  How \<open>fetch\<close> and \<open>res.json()\<close> can end: the request itself fails, or a response arrives
  with a status and a body that parses to monitoring data or does not.
\<close>

datatype 'd fetched = NetworkError | Response nat "'d option"

datatype thrown = FetchRejected | HttpStatus nat | JsonRejected

text \<open>\<open>res.ok\<close>: the status is in the range 200 to 299.\<close>

definition ok :: "nat \<Rightarrow> bool" where
  "ok status = (200 \<le> status \<and> status \<le> 299)"

text \<open>
  The cells of \<open>MonitoringView\<close>, and next to them the state of the parent, which owns the
  monitoring data shown and changes it only through the \<open>onLoaded\<close> callback.
\<close>

record mon_state =
  days :: int
  loading :: bool

text \<open>
  The \<open>try\<close> block of \<open>fetchData\<close>: the value it hands to \<open>onLoaded\<close>, or what it throws
  before reaching that call.
\<close>

definition tryBlock :: "'d fetched \<Rightarrow> thrown + 'd" where
  "tryBlock r =
     (case r of
        NetworkError \<Rightarrow> Inl FetchRejected
      | Response status body \<Rightarrow>
          if \<not> ok status then Inl (HttpStatus status)
          else (case body of None \<Rightarrow> Inl JsonRejected | Some d \<Rightarrow> Inr d))"

text \<open>
  \<open>fetchData\<close>: \<open>setLoading(true)\<close>, the \<open>try\<close> block, the empty \<open>catch\<close>, and
  \<open>setLoading(false)\<close> in \<open>finally\<close>.  The result is what escapes the function (nothing can:
  the \<open>catch\<close> neither rethrows nor does anything else), the list of values \<open>onLoaded\<close> was
  called with, the cells of the view and the state of the parent.
\<close>

definition fetchData ::
  "('d \<Rightarrow> 'p \<Rightarrow> 'p) \<Rightarrow> 'd fetched \<Rightarrow> mon_state \<times> 'p \<Rightarrow> thrown option \<times> 'd list \<times> mon_state \<times> 'p" where
  "fetchData onLoaded r vp =
     (let v1 = (fst vp)\<lparr>loading := True\<rparr> in
      case tryBlock r of
        Inr d \<Rightarrow> (None, [d], v1\<lparr>loading := False\<rparr>, onLoaded d (snd vp))
      | Inl e \<Rightarrow> (None, [], v1\<lparr>loading := False\<rparr>, snd vp))"

text \<open>\<open>handleDaysChange\<close>: \<open>setDays(d); fetchData(d)\<close>.\<close>

definition handleDaysChange ::
  "('d \<Rightarrow> 'p \<Rightarrow> 'p) \<Rightarrow> int \<Rightarrow> 'd fetched \<Rightarrow> mon_state \<times> 'p \<Rightarrow> thrown option \<times> 'd list \<times> mon_state \<times> 'p" where
  "handleDaysChange onLoaded d r vp = fetchData onLoaded r ((fst vp)\<lparr>days := d\<rparr>, snd vp)"

section \<open>Example states\<close>

text \<open>
  A browser that opens the application at path \<open>p\<close> with nothing stored, seen when the
  site mode is \<open>m\<close> (\<open>None\<close> while the site information is still being fetched); and the
  same with a user signed in.
\<close>

definition visitor :: "string \<Rightarrow> string option \<Rightarrow> string app_state" where
  "visitor p m =
     \<lparr>adminToken = None, userToken = None, userRecord = None, siteMode = m, notice = [],
      path = p, storage = Map.empty, location = p, behind = []\<rparr>"

definition signedIn :: "string \<Rightarrow> string option \<Rightarrow> string app_state" where
  "signedIn p m =
     (visitor p m)\<lparr>userToken := Some ''tok'', userRecord := Some ''alice'',
       storage := [''user_token'' \<mapsto> ''tok'']\<rparr>"

text \<open>Three days of traffic, two days without any, and a single day.\<close>

definition threeDays :: "DailyPoint list" where
  "threeDays =
     [\<lparr>day = ''2024-05-01'', requests = 3, tokens = 900\<rparr>,
      \<lparr>day = ''2024-05-02'', requests = 6, tokens = 2100\<rparr>,
      \<lparr>day = ''2024-05-03'', requests = 0, tokens = 0\<rparr>]"

definition quietDays :: "DailyPoint list" where
  "quietDays =
     [\<lparr>day = ''2024-05-01'', requests = 0, tokens = 0\<rparr>,
      \<lparr>day = ''2024-05-02'', requests = 0, tokens = 0\<rparr>]"

definition oneDay :: "DailyPoint list" where
  "oneDay = [\<lparr>day = ''2024-05-01'', requests = 5, tokens = 1200\<rparr>]"

text \<open>
  A catalog of \<open>n\<close> models, a page-item builder that lists every page (no ellipsis), and
  the lower-casing of the letters \<open>A\<close> to \<open>Z\<close>, which is what \<open>toLowerCase\<close> does on the
  identifiers and queries of the examples.
\<close>

definition catalog :: "nat \<Rightarrow> ModelItem list" where
  "catalog n = map (\<lambda>i. \<lparr>model_id = ''Model-'' @ digitsOf i\<rparr>) [0..<n]"

definition everyPage :: "int \<Rightarrow> int \<Rightarrow> page_item list" where
  "everyPage p t = map PageNumber [1..t]"

definition asciiLower :: "string \<Rightarrow> string" where
  "asciiLower s =
     map (\<lambda>c. let n = (of_char c :: nat) in if 65 \<le> n \<and> n \<le> 90 then char_of (n + 32) else c) s"

section \<open>JavaScript numbers: checks of the model\<close>

text \<open>
  The exponent is the right one, and the rounding reproduces known binary64 values: the
  literals \<open>0.1\<close> and \<open>0.01\<close>, one third, and the ties at \<open>2 ^ 53 + 1\<close> (down, to the even
  significand) and \<open>2 ^ 53 + 3\<close> (up).
\<close>

lemma bitlen_positive: "0 < (m :: int) \<Longrightarrow> 1 \<le> bitlen m"
  using bitlen_eq_zero_iff [of m] bitlen_nonneg [of m] by linarith

lemma ilog2_bounds:
  assumes "0 < x"
  shows "2 powi ilog2 x \<le> x \<and> x < 2 powi (ilog2 x + 1)"
proof (cases "1 \<le> x")
  case True
  define m where "m = \<lfloor>x\<rfloor>"
  have m: "0 < m" using True by (simp add: m_def)
  define e where "e = nat (bitlen m - 1)"
  from m have "1 \<le> bitlen m" by (rule bitlen_positive)
  then have bl: "bitlen m = int e + 1" by (simp add: e_def)
  from bitlen_bounds [OF m] have lo: "2 ^ e \<le> m" and hi: "m < 2 ^ (e + 1)"
    by (simp_all add: bl nat_add_distrib)
  have il: "ilog2 x = int e" using True by (simp add: ilog2_def m_def [symmetric] bl)
  have "(2 :: rat) ^ e = of_int (2 ^ e)" by simp
  also have "\<dots> \<le> of_int m" using lo by (simp only: of_int_le_iff)
  also have "\<dots> \<le> x" by (simp add: m_def)
  finally have a: "(2 :: rat) ^ e \<le> x" .
  have "m + 1 \<le> 2 ^ (e + 1)" using hi by simp
  then have "(of_int (m + 1) :: rat) \<le> of_int (2 ^ (e + 1))" by (simp only: of_int_le_iff)
  moreover have "x < of_int (m + 1)" unfolding m_def by linarith
  ultimately have b: "x < (2 :: rat) ^ (e + 1)" by simp
  have "ilog2 x + 1 = int (e + 1)" using il by simp
  with a b il show ?thesis by (simp only: power_int_of_nat)
next
  case False
  with assms have x: "0 < x" "x < 1" by simp_all
  define c where "c = \<lceil>1 / x\<rceil>"
  have y1: "1 < 1 / x" using x by simp
  then have c2: "2 \<le> c" unfolding c_def by linarith
  then have m: "0 < c - 1" by simp
  define k where "k = nat (bitlen (c - 1))"
  have kb: "bitlen (c - 1) = int k" by (simp add: k_def bitlen_nonneg)
  from m have "1 \<le> bitlen (c - 1)" by (rule bitlen_positive)
  then have k1: "1 \<le> k" by (simp add: k_def)
  from bitlen_bounds [OF m] have lo: "2 ^ (k - 1) \<le> c - 1" and hi: "c - 1 < 2 ^ k"
    using k1 by (simp_all add: kb nat_diff_distrib)
  have il: "ilog2 x = - int k" using False by (simp add: ilog2_def c_def [symmetric] kb)
  have "1 / x \<le> of_int c" by (simp add: c_def)
  also have "c \<le> 2 ^ k" using hi by simp
  then have "(of_int c :: rat) \<le> of_int (2 ^ k)" by (simp only: of_int_le_iff)
  finally have up: "1 / x \<le> 2 ^ k" by simp
  have "(of_int (2 ^ (k - 1)) :: rat) \<le> of_int (c - 1)" using lo by (simp only: of_int_le_iff)
  moreover have "of_int (c - 1) < 1 / x" unfolding c_def by linarith
  ultimately have dn: "2 ^ (k - 1) < 1 / x" by simp
  have a: "2 powi (- int k) \<le> x"
  proof -
    have "1 \<le> x * 2 ^ k" using up x(1) by (simp add: field_simps)
    then show ?thesis by (simp add: power_int_minus field_simps)
  qed
  have b: "x < 2 powi (- int k + 1)"
  proof -
    have lt: "x * 2 ^ (k - 1) < 1" using dn x(1) by (simp add: field_simps)
    have "- int k + 1 = - int (k - 1)" using k1 by simp
    then have "(2 :: rat) powi (- int k + 1) = 2 powi (- int (k - 1))" by (simp only:)
    also have "\<dots> = inverse (2 ^ (k - 1))" by (simp only: power_int_minus power_int_of_nat)
    finally have eq: "(2 :: rat) powi (- int k + 1) = inverse (2 ^ (k - 1))" .
    have "x < inverse (2 ^ (k - 1))" using lt by (simp add: field_simps)
    with eq show ?thesis by simp
  qed
  from a b il show ?thesis by simp
qed

lemma binary64_known_values:
  "binary64 (1 / 10) = 3602879701896397 / 2 ^ 55"
  "binary64 (1 / 100) = 5764607523034235 / 2 ^ 59"
  "binary64 (1 / 3) = 6004799503160661 / 2 ^ 54"
  "binary64 (2 ^ 53 + 1) = 2 ^ 53"
  "binary64 (2 ^ 53 + 3) = 2 ^ 53 + 4"
  "binary64 (- (1 / 10)) = - (3602879701896397 / 2 ^ 55)"
  by code_simp+


lemma roundHalfEven_nearest: "\<bar>of_int (roundHalfEven x) - x\<bar> \<le> 1 / 2"
proof -
  have "of_int \<lfloor>x\<rfloor> \<le> x" "x < of_int \<lfloor>x\<rfloor> + 1" by linarith+
  then show ?thesis by (auto simp add: roundHalfEven_def Let_def)
qed

section \<open>Path normalisation: proofs\<close>

lemma strip_append_slashes:
  "\<exists>k. p = stripTrailingSlashes p @ replicate k (CHR ''/'')"
proof -
  have "\<exists>k. xs = replicate k (CHR ''/'') @ dropWhile (\<lambda>c. c = CHR ''/'') xs" for xs :: string
  proof (induction xs)
    case Nil
    show ?case by simp
  next
    case (Cons a xs)
    then obtain k where k: "xs = replicate k (CHR ''/'') @ dropWhile (\<lambda>c. c = CHR ''/'') xs"
      by blast
    show ?case
    proof (cases "a = CHR ''/''")
      case True
      have "a # xs = replicate (Suc k) (CHR ''/'') @ dropWhile (\<lambda>c. c = CHR ''/'') (a # xs)"
        using True k by simp
      then show ?thesis by blast
    next
      case False
      have "a # xs = replicate 0 (CHR ''/'') @ dropWhile (\<lambda>c. c = CHR ''/'') (a # xs)"
        using False by simp
      then show ?thesis by blast
    qed
  qed
  then obtain k where "rev p = replicate k (CHR ''/'') @ dropWhile (\<lambda>c. c = CHR ''/'') (rev p)"
    by blast
  then have "rev (rev p) = rev (replicate k (CHR ''/'') @ dropWhile (\<lambda>c. c = CHR ''/'') (rev p))"
    by simp
  then have "p = stripTrailingSlashes p @ replicate k (CHR ''/'')"
    by (simp add: stripTrailingSlashes_def)
  then show ?thesis by blast
qed

lemma strip_last:
  assumes "stripTrailingSlashes p \<noteq> []"
  shows "last (stripTrailingSlashes p) \<noteq> CHR ''/''"
proof -
  let ?d = "dropWhile (\<lambda>c. c = CHR ''/'') (rev p)"
  from assms have ne: "?d \<noteq> []" by (simp add: stripTrailingSlashes_def)
  then have "hd ?d \<noteq> CHR ''/''"
    using hd_dropWhile[of "\<lambda>c. c = CHR ''/''" "rev p"] by simp
  moreover have "last (rev ?d) = hd ?d" using ne by (simp add: last_rev)
  ultimately show ?thesis by (simp add: stripTrailingSlashes_def)
qed

lemma strip_fixed: "p \<noteq> [] \<Longrightarrow> last p \<noteq> CHR ''/'' \<Longrightarrow> stripTrailingSlashes p = p"
  by (cases p rule: rev_cases) (simp_all add: stripTrailingSlashes_def)

lemma strip_idem: "stripTrailingSlashes (stripTrailingSlashes p) = stripTrailingSlashes p"
proof (cases "stripTrailingSlashes p = []")
  case True
  then show ?thesis by (simp add: stripTrailingSlashes_def)
next
  case False
  then show ?thesis using strip_fixed strip_last by blast
qed

lemma strip_keeps_head:
  assumes "stripTrailingSlashes (c # q) \<noteq> []"
  shows "\<exists>r. stripTrailingSlashes (c # q) = c # r"
proof -
  obtain k where k: "c # q = stripTrailingSlashes (c # q) @ replicate k (CHR ''/'')"
    using strip_append_slashes by blast
  from assms obtain a r where ar: "stripTrailingSlashes (c # q) = a # r"
    by (cases "stripTrailingSlashes (c # q)") auto
  with k have "c # q = a # (r @ replicate k (CHR ''/''))" by simp
  then have "a = c" by simp
  with ar show ?thesis by blast
qed

lemma normalizePath_rooted_idem:
  assumes "p = CHR ''/'' # q"
  shows "normalizePath (normalizePath p) = normalizePath p"
proof (cases "length p \<le> 1")
  case True
  then show ?thesis by (simp add: normalizePath_def)
next
  case long: False
  show ?thesis
  proof (cases "stripTrailingSlashes p = []")
    case True
    with long show ?thesis by (simp add: normalizePath_def)
  next
    case ne: False
    then obtain r where r: "stripTrailingSlashes p = CHR ''/'' # r"
      using strip_keeps_head assms by blast
    have "last (stripTrailingSlashes p) \<noteq> CHR ''/''" using strip_last ne by blast
    with r have "r \<noteq> []" by auto
    with r have len: "\<not> length (stripTrailingSlashes p) \<le> 1" by (cases r) auto
    have "normalizePath p = stripTrailingSlashes p"
      using long ne by (simp add: normalizePath_def)
    moreover have "normalizePath (stripTrailingSlashes p) = stripTrailingSlashes p"
      using len ne by (simp add: normalizePath_def strip_idem)
    ultimately show ?thesis by simp
  qed
qed

text \<open>
  C4, as stated, fails: idempotence does not hold for every string.  \<open>"a/"\<close> is longer than
  one code unit, so its slashes are stripped and it normalises to \<open>"a"\<close>; \<open>"a"\<close> has length
  one, so it normalises to \<open>"/"\<close>.
\<close>

theorem normalizePath_not_idempotent_everywhere:
  "normalizePath (normalizePath ''a/'') \<noteq> normalizePath ''a/''"
  by (simp add: normalizePath_def stripTrailingSlashes_def)

text \<open>
  C4, amended.  Path normalisation is idempotent for every path that is empty or starts
  with a slash, as every \<open>window.location.pathname\<close> does; and \<open>normalize("")\<close> =
  \<open>normalize("/")\<close> = \<open>"/"\<close>, \<open>normalize("/admin/")\<close> = \<open>"/admin"\<close>, and the all-slash path
  \<open>"//"\<close> normalises to \<open>"/"\<close>.
\<close>

theorem normalizePath_idempotent_on_rooted_paths:
  "(p = [] \<or> startsWith p ''/'' \<longrightarrow> normalizePath (normalizePath p) = normalizePath p) \<and>
   normalizePath [] = ''/'' \<and> normalizePath ''/'' = ''/'' \<and>
   normalizePath ''/admin/'' = ''/admin'' \<and> normalizePath ''//'' = ''/''"
proof -
  have "normalizePath (normalizePath p) = normalizePath p" if "p = [] \<or> startsWith p ''/''"
  proof (cases p)
    case Nil
    then show ?thesis by (simp add: normalizePath_def)
  next
    case (Cons c q)
    with that have "c = CHR ''/''" by (simp add: startsWith_def)
    with Cons show ?thesis using normalizePath_rooted_idem by blast
  qed
  moreover have "normalizePath [] = ''/''" "normalizePath ''/'' = ''/''"
    "normalizePath ''/admin/'' = ''/admin''" "normalizePath ''//'' = ''/''"
    by (simp_all add: normalizePath_def stripTrailingSlashes_def)
  ultimately show ?thesis by blast
qed

theorem normalizePath_idempotent_on_rooted_paths_witness:
  "startsWith ''/user/settings//'' ''/'' \<and>
   normalizePath ''/user/settings//'' = ''/user/settings'' \<and>
   normalizePath (normalizePath ''/user/settings//'') = normalizePath ''/user/settings//''"
proof -
  have h: "startsWith ''/user/settings//'' ''/''" by (simp add: startsWith_def)
  have v: "normalizePath ''/user/settings//'' = ''/user/settings''"
    by (simp add: normalizePath_def stripTrailingSlashes_def)
  from h v show ?thesis
    using normalizePath_idempotent_on_rooted_paths [of "''/user/settings//''"] by blast
qed

section \<open>The root component: proofs\<close>

lemma path_replacePath: "path (replacePath t s) = t"
  by (simp add: replacePath_def)

lemma location_replacePath: "location (replacePath t s) = t"
  by (simp add: replacePath_def)

lemma root_is_no_subtree: "\<not> startsWith ''/'' ''/admin''" "\<not> startsWith ''/'' ''/user''"
  by (simp_all add: startsWith_def)

lemma falsy_iff: "falsy t = (\<not> truthy t)"
  by (simp add: falsy_def truthy_def split: option.splits)

lemma path_redirects:
  "path (personalRedirect s (homepageRedirect s s)) =
     (if siteMode s = Some ''personal'' \<and> \<not> startsWith (path s) ''/admin'' then ''/admin''
      else if path s = ''/'' \<and> siteMode s \<noteq> None then
        (if siteMode s = Some ''personal'' then ''/admin''
         else if truthy (userToken s) \<and> userRecord s \<noteq> None then ''/user'' else ''/login'')
      else path s)"
  by (auto simp add: personalRedirect_def homepageRedirect_def path_replacePath)

lemma location_redirects:
  "location (personalRedirect s (homepageRedirect s s)) =
     (if siteMode s = Some ''personal'' \<and> \<not> startsWith (path s) ''/admin'' then ''/admin''
      else if path s = ''/'' \<and> siteMode s \<noteq> None then
        (if siteMode s = Some ''personal'' then ''/admin''
         else if truthy (userToken s) \<and> userRecord s \<noteq> None then ''/user'' else ''/login'')
      else location s)"
  by (auto simp add: personalRedirect_def homepageRedirect_def location_replacePath)

lemma fst_App:
  "fst (App s) =
     (if \<not> startsWith (path s) ''/admin'' \<and> startsWith (path s) ''/user'' \<and>
         (falsy (userToken s) \<or> userRecord s = None) \<and> path s \<noteq> ''/login''
      then replacePath ''/login'' (personalRedirect s (homepageRedirect s s))
      else personalRedirect s (homepageRedirect s s))"
  by (simp add: App_def Let_def)

text \<open>The path a render pass leaves for the next one, as a function of what the pass read.\<close>

lemma path_after_pass:
  "path (fst (App s)) =
     (if \<not> startsWith (path s) ''/admin'' \<and> startsWith (path s) ''/user'' \<and>
         (falsy (userToken s) \<or> userRecord s = None) \<and> path s \<noteq> ''/login''
      then ''/login''
      else if siteMode s = Some ''personal'' \<and> \<not> startsWith (path s) ''/admin'' then ''/admin''
      else if path s = ''/'' \<and> siteMode s \<noteq> None then
        (if siteMode s = Some ''personal'' then ''/admin''
         else if truthy (userToken s) \<and> userRecord s \<noteq> None then ''/user'' else ''/login'')
      else path s)"
  unfolding fst_App
  by (simp only: path_redirects path_replacePath if_distrib[of path] cong: if_cong)

lemma location_after_pass:
  "location (fst (App s)) =
     (if \<not> startsWith (path s) ''/admin'' \<and> startsWith (path s) ''/user'' \<and>
         (falsy (userToken s) \<or> userRecord s = None) \<and> path s \<noteq> ''/login''
      then ''/login''
      else if siteMode s = Some ''personal'' \<and> \<not> startsWith (path s) ''/admin'' then ''/admin''
      else if path s = ''/'' \<and> siteMode s \<noteq> None then
        (if siteMode s = Some ''personal'' then ''/admin''
         else if truthy (userToken s) \<and> userRecord s \<noteq> None then ''/user'' else ''/login'')
      else location s)"
  unfolding fst_App
  by (simp only: location_redirects location_replacePath if_distrib[of location] cong: if_cong)

text \<open>The subtree a render pass returns.\<close>

lemma view_of_pass:
  "snd (App s) =
     (if startsWith (path s) ''/admin'' then
        (if falsy (adminToken s) then LoginView (notice s) else AdminApp (the (adminToken s)))
      else if startsWith (path s) ''/user'' \<and> truthy (userToken s) \<and> userRecord s \<noteq> None
        then UserApp (the (userToken s)) (the (userRecord s))
      else PublicApp)"
  by (auto simp add: App_def Let_def falsy_iff)

text \<open>A redirect changes the path and the history entry only.\<close>

lemma pass_keeps_session:
  "siteMode (fst (App s)) = siteMode s \<and> adminToken (fst (App s)) = adminToken s \<and>
   userToken (fst (App s)) = userToken s \<and> userRecord (fst (App s)) = userRecord s"
  by (simp add: fst_App personalRedirect_def homepageRedirect_def replacePath_def)

text \<open>
  C1.  At the root path the redirect is a function of what the pass read.  In personal
  mode the new path is \<open>/admin\<close>; in any other known mode it is \<open>/user\<close> when the user token
  and the user record are both present, and \<open>/login\<close> when there is no user token (or no
  user record).  The history entry is replaced alike.  Present and absent are the
  source's own test \<open>userToken && userRecord\<close>: a token is present when it is neither
  \<open>null\<close> nor empty (\<open>truthy\<close>), absent otherwise (\<open>falsy\<close>, so \<open>falsy None\<close> holds).
  Two states that agree on path, admin token, user token, presence of the user record
  and site mode are left with the same path.
\<close>

theorem root_redirect:
  fixes s s' :: "'u app_state"
  shows
  "(path s = ''/'' \<and> siteMode s = Some ''personal''
      \<longrightarrow> path (fst (App s)) = ''/admin'' \<and> location (fst (App s)) = ''/admin'') \<and>
   (path s = ''/'' \<and> siteMode s \<noteq> None \<and> siteMode s \<noteq> Some ''personal'' \<and>
      truthy (userToken s) \<and> userRecord s \<noteq> None
      \<longrightarrow> path (fst (App s)) = ''/user'' \<and> location (fst (App s)) = ''/user'') \<and>
   (path s = ''/'' \<and> siteMode s \<noteq> None \<and> siteMode s \<noteq> Some ''personal'' \<and>
      (falsy (userToken s) \<or> userRecord s = None)
      \<longrightarrow> path (fst (App s)) = ''/login'' \<and> location (fst (App s)) = ''/login'') \<and>
   (path s' = path s \<and> adminToken s' = adminToken s \<and> userToken s' = userToken s \<and>
      (userRecord s' = None \<longleftrightarrow> userRecord s = None) \<and> siteMode s' = siteMode s
      \<longrightarrow> path (fst (App s')) = path (fst (App s)))"
proof -
  have personal: "path (fst (App s)) = ''/admin'' \<and> location (fst (App s)) = ''/admin''"
    if "path s = ''/''" "siteMode s = Some ''personal''"
    using that by (simp add: path_after_pass location_after_pass root_is_no_subtree)
  have user: "path (fst (App s)) = ''/user'' \<and> location (fst (App s)) = ''/user''"
    if "path s = ''/''" "siteMode s \<noteq> None" "siteMode s \<noteq> Some ''personal''"
      "truthy (userToken s)" "userRecord s \<noteq> None"
    using that by (simp add: path_after_pass location_after_pass root_is_no_subtree)
  have login: "path (fst (App s)) = ''/login'' \<and> location (fst (App s)) = ''/login''"
    if "path s = ''/''" "siteMode s \<noteq> None" "siteMode s \<noteq> Some ''personal''"
      "falsy (userToken s) \<or> userRecord s = None"
    using that by (auto simp add: path_after_pass location_after_pass root_is_no_subtree falsy_iff)
  have same: "path (fst (App s')) = path (fst (App s))"
    if "path s' = path s" "adminToken s' = adminToken s" "userToken s' = userToken s"
      "userRecord s' = None \<longleftrightarrow> userRecord s = None" "siteMode s' = siteMode s"
    using that by (simp only: path_after_pass)
  have t1: "path s = ''/'' \<and> siteMode s = Some ''personal''
        \<longrightarrow> path (fst (App s)) = ''/admin'' \<and> location (fst (App s)) = ''/admin''"
    by (intro impI; elim conjE; rule personal)
  have t2: "path s = ''/'' \<and> siteMode s \<noteq> None \<and> siteMode s \<noteq> Some ''personal'' \<and>
        truthy (userToken s) \<and> userRecord s \<noteq> None
        \<longrightarrow> path (fst (App s)) = ''/user'' \<and> location (fst (App s)) = ''/user''"
    by (intro impI; elim conjE; rule user)
  have t3: "path s = ''/'' \<and> siteMode s \<noteq> None \<and> siteMode s \<noteq> Some ''personal'' \<and>
        (falsy (userToken s) \<or> userRecord s = None)
        \<longrightarrow> path (fst (App s)) = ''/login'' \<and> location (fst (App s)) = ''/login''"
    by (intro impI; elim conjE; rule login)
  have t4:
    "path s' = path s \<and> adminToken s' = adminToken s \<and> userToken s' = userToken s \<and>
      (userRecord s' = None \<longleftrightarrow> userRecord s = None) \<and> siteMode s' = siteMode s
      \<longrightarrow> path (fst (App s')) = path (fst (App s))"
    by (intro impI; elim conjE; simp only: path_after_pass)
  show ?thesis by (rule conjI[OF t1 conjI[OF t2 conjI[OF t3 t4]]])
qed


lemma visitor_fields:
  "path (visitor p m) = p" "siteMode (visitor p m) = m" "userToken (visitor p m) = None"
  "userRecord (visitor p m) = None" "adminToken (visitor p m) = None"
  by (simp_all add: visitor_def)

lemma signedIn_fields:
  "path (signedIn p m) = p" "siteMode (signedIn p m) = m" "userToken (signedIn p m) = Some ''tok''"
  "userRecord (signedIn p m) = Some ''alice''" "adminToken (signedIn p m) = None"
  by (simp_all add: signedIn_def visitor_def)

theorem root_redirect_witness:
  "path (fst (App (visitor ''/'' (Some ''personal'')))) = ''/admin'' \<and>
   path (fst (App (signedIn ''/'' (Some ''multi'')))) = ''/user'' \<and>
   path (fst (App (visitor ''/'' (Some ''multi'')))) = ''/login'' \<and>
   path (fst (App ((visitor ''/'' (Some ''multi''))\<lparr>notice := ''hello''\<rparr>))) =
     path (fst (App (visitor ''/'' (Some ''multi''))))"
proof -
  have a: "path (fst (App (visitor ''/'' (Some ''personal'')))) = ''/admin''"
    using root_redirect [of "visitor ''/'' (Some ''personal'')" "visitor ''/'' (Some ''personal'')",
        THEN conjunct1]
    by (simp add: visitor_fields)
  have b: "path (fst (App (signedIn ''/'' (Some ''multi'')))) = ''/user''"
    using root_redirect [of "signedIn ''/'' (Some ''multi'')" "signedIn ''/'' (Some ''multi'')",
        THEN conjunct2, THEN conjunct1]
    by (simp add: signedIn_fields truthy_def)
  have c: "path (fst (App (visitor ''/'' (Some ''multi'')))) = ''/login''"
    using root_redirect [of "visitor ''/'' (Some ''multi'')" "visitor ''/'' (Some ''multi'')",
        THEN conjunct2, THEN conjunct2, THEN conjunct1]
    by (simp add: visitor_fields falsy_def)
  have d: "path (fst (App ((visitor ''/'' (Some ''multi''))\<lparr>notice := ''hello''\<rparr>))) =
      path (fst (App (visitor ''/'' (Some ''multi''))))"
  proof (rule root_redirect [of "visitor ''/'' (Some ''multi'')"
        "(visitor ''/'' (Some ''multi''))\<lparr>notice := ''hello''\<rparr>",
        THEN conjunct2, THEN conjunct2, THEN conjunct2, THEN mp])
    show "path ((visitor ''/'' (Some ''multi''))\<lparr>notice := ''hello''\<rparr>) =
        path (visitor ''/'' (Some ''multi'')) \<and>
      adminToken ((visitor ''/'' (Some ''multi''))\<lparr>notice := ''hello''\<rparr>) =
        adminToken (visitor ''/'' (Some ''multi'')) \<and>
      userToken ((visitor ''/'' (Some ''multi''))\<lparr>notice := ''hello''\<rparr>) =
        userToken (visitor ''/'' (Some ''multi'')) \<and>
      (userRecord ((visitor ''/'' (Some ''multi''))\<lparr>notice := ''hello''\<rparr>) = None \<longleftrightarrow>
        userRecord (visitor ''/'' (Some ''multi'')) = None) \<and>
      siteMode ((visitor ''/'' (Some ''multi''))\<lparr>notice := ''hello''\<rparr>) =
        siteMode (visitor ''/'' (Some ''multi''))"
      by simp
  qed
  from a b c d show ?thesis by (intro conjI)
qed

text \<open>What a render pass leaves alone: the session, the notice and the entries behind.\<close>

lemma pass_keeps_rest:
  "notice (fst (App s)) = notice s \<and> behind (fst (App s)) = behind s \<and>
   storage (fst (App s)) = storage s"
  by (simp add: fst_App personalRedirect_def homepageRedirect_def replacePath_def)

text \<open>Under \<open>/admin\<close> a pass writes nothing and renders the admin subtree.\<close>

lemma admin_subtree_stable:
  assumes "startsWith (path s) ''/admin''"
  shows "fst (App s) = s"
    and "snd (App s) =
      (if falsy (adminToken s) then LoginView (notice s) else AdminApp (the (adminToken s)))"
proof -
  have "path s \<noteq> ''/''" using assms by (auto simp add: startsWith_def)
  with assms show "fst (App s) = s"
    by (simp add: fst_App personalRedirect_def homepageRedirect_def)
  from assms show "snd (App s) =
      (if falsy (adminToken s) then LoginView (notice s) else AdminApp (the (adminToken s)))"
    by (simp add: view_of_pass)
qed

lemma passes_admin_fixed:
  assumes "startsWith (path s) ''/admin''"
  shows "passes n s = s"
  using assms by (induction n) (simp_all add: admin_subtree_stable(1))

text \<open>
  In personal mode, off \<open>/admin\<close>: one pass leaves \<open>/admin\<close>, except that for a \<open>/user\<close> path
  without a signed-in user the guard of the user routes, later in the same pass, writes
  \<open>/login\<close> over it; the pass after that one leaves \<open>/admin\<close> in either case.
\<close>

lemma personal_mode_one_pass:
  assumes "siteMode s = Some ''personal''" and "\<not> startsWith (path s) ''/admin''"
  shows "path (fst (App s)) =
      (if startsWith (path s) ''/user'' \<and> (falsy (userToken s) \<or> userRecord s = None)
       then ''/login'' else ''/admin'')"
    and "location (fst (App s)) = path (fst (App s))"
proof -
  have "path s \<noteq> ''/login''" if "startsWith (path s) ''/user''"
    using that by (auto simp add: startsWith_def)
  with assms show "path (fst (App s)) =
      (if startsWith (path s) ''/user'' \<and> (falsy (userToken s) \<or> userRecord s = None)
       then ''/login'' else ''/admin'')"
    by (simp add: path_after_pass)
  from assms show "location (fst (App s)) = path (fst (App s))"
    by (simp add: path_after_pass location_after_pass)
qed

lemma personal_mode_two_passes:
  assumes "siteMode s = Some ''personal''" and "\<not> startsWith (path s) ''/admin''"
  shows "path (passes 2 s) = ''/admin''" and "location (passes 2 s) = ''/admin''"
proof -
  let ?s1 = "fst (App s)"
  have two: "passes 2 s = fst (App ?s1)" by (simp add: numeral_2_eq_2)
  have mode: "siteMode ?s1 = Some ''personal''" using assms(1) by (simp add: pass_keeps_session)
  have loc1: "location ?s1 = path ?s1" using assms by (rule personal_mode_one_pass(2))
  have p1: "path ?s1 = ''/login'' \<or> path ?s1 = ''/admin''"
    using personal_mode_one_pass(1) [OF assms] by (simp split: if_splits)
  then have "path (fst (App ?s1)) = ''/admin'' \<and> location (fst (App ?s1)) = ''/admin''"
  proof
    assume l: "path ?s1 = ''/login''"
    have "\<not> startsWith ''/login'' ''/admin''" "\<not> startsWith ''/login'' ''/user''"
      by (simp_all add: startsWith_def)
    with l mode show ?thesis by (simp add: path_after_pass location_after_pass)
  next
    assume a: "path ?s1 = ''/admin''"
    have "startsWith (path ?s1) ''/admin''" using a by (simp add: startsWith_def)
    then have "fst (App ?s1) = ?s1" by (rule admin_subtree_stable(1))
    with a loc1 show ?thesis by simp
  qed
  with two show "path (passes 2 s) = ''/admin''" and "location (passes 2 s) = ''/admin''"
    by simp_all
qed

text \<open>
  The transient, at a concrete state: a visitor who opens \<open>/user\<close> on a personal-mode site.
  The redirect blocks write \<open>/admin\<close>, the same pass ends at \<open>/login\<close> showing the public
  view, and the pass after it ends at \<open>/admin\<close>.
\<close>

lemma personal_mode_user_path_passes:
  "path (personalRedirect (visitor ''/user'' (Some ''personal''))
      (homepageRedirect (visitor ''/user'' (Some ''personal''))
        (visitor ''/user'' (Some ''personal'')))) = ''/admin'' \<and>
   path (passes 1 (visitor ''/user'' (Some ''personal''))) = ''/login'' \<and>
   snd (App (visitor ''/user'' (Some ''personal''))) = PublicApp \<and>
   path (passes 2 (visitor ''/user'' (Some ''personal''))) = ''/admin''"
proof -
  have "path (passes 2 (visitor ''/user'' (Some ''personal''))) = ''/admin''"
    by (rule personal_mode_two_passes(1)) (simp_all add: visitor_fields startsWith_def)
  then show ?thesis
    by (simp add: path_redirects path_after_pass view_of_pass visitor_fields
        startsWith_def falsy_def truthy_def)
qed

text \<open>
  C2.  When the site mode is \<open>personal\<close>, for every current path that does not start with
  \<open>/admin\<close> (\<open>/user\<close> and \<open>/login\<close> included) the machine replaces the path with \<open>/admin\<close>:
  the pass issues that replacement, and from the second pass on (the re-render that
  \<open>setPath\<close> triggers) the path and the current history entry are \<open>/admin\<close>, no history
  entry has been added, and what is rendered is the admin login form or the admin console.
  A path that starts with \<open>/admin\<close> is left alone and renders the same subtree.  So
  \<open>/admin\<close> is the only subtree the machine comes to rest in.
\<close>

theorem personal_mode_forces_admin:
  "(siteMode s = Some ''personal'' \<and> \<not> startsWith (path s) ''/admin'' \<longrightarrow>
      path (personalRedirect s (homepageRedirect s s)) = ''/admin'' \<and>
      (\<forall>n\<ge>2. path (passes n s) = ''/admin'' \<and> location (passes n s) = ''/admin'' \<and>
         behind (passes n s) = behind s \<and>
         snd (App (passes n s)) =
           (if falsy (adminToken s) then LoginView (notice s)
            else AdminApp (the (adminToken s))))) \<and>
   (siteMode s = Some ''personal'' \<and> startsWith (path s) ''/admin'' \<longrightarrow>
      (\<forall>n. passes n s = s) \<and>
      snd (App s) =
        (if falsy (adminToken s) then LoginView (notice s) else AdminApp (the (adminToken s))))"
proof -
  have off: "path (personalRedirect s (homepageRedirect s s)) = ''/admin'' \<and>
      (\<forall>n\<ge>2. path (passes n s) = ''/admin'' \<and> location (passes n s) = ''/admin'' \<and>
         behind (passes n s) = behind s \<and>
         snd (App (passes n s)) =
           (if falsy (adminToken s) then LoginView (notice s)
            else AdminApp (the (adminToken s))))"
    if mode: "siteMode s = Some ''personal''" and out: "\<not> startsWith (path s) ''/admin''"
  proof -
    let ?s2 = "passes 2 s"
    have issued: "path (personalRedirect s (homepageRedirect s s)) = ''/admin''"
      using mode out by (simp add: path_redirects)
    have p2: "path ?s2 = ''/admin''" and l2: "location ?s2 = ''/admin''"
      using mode out by (rule personal_mode_two_passes)+
    have s2: "?s2 = fst (App (fst (App s)))" by (simp add: numeral_2_eq_2)
    have b2: "behind ?s2 = behind s" and n2: "notice ?s2 = notice s"
      unfolding s2 by (simp_all add: pass_keeps_rest)
    have a2: "adminToken ?s2 = adminToken s"
      unfolding s2 by (simp add: pass_keeps_session)
    have under: "startsWith (path ?s2) ''/admin''" using p2 by (simp add: startsWith_def)
    have rest: "passes n s = ?s2" if "2 \<le> n" for n
    proof -
      from that obtain k where n: "n = Suc (Suc k)"
        by (metis Suc_le_D numeral_2_eq_2 Suc_le_mono)
      have "passes n s = passes k (fst (App (fst (App s))))" by (simp add: n)
      also have "\<dots> = passes k ?s2" by (simp only: s2)
      also have "\<dots> = ?s2" using under by (rule passes_admin_fixed)
      finally show ?thesis .
    qed
    have v2: "snd (App ?s2) =
        (if falsy (adminToken s) then LoginView (notice s) else AdminApp (the (adminToken s)))"
      using admin_subtree_stable(2) [OF under] by (simp only: a2 n2)
    have "path (passes n s) = ''/admin'' \<and> location (passes n s) = ''/admin'' \<and>
         behind (passes n s) = behind s \<and>
         snd (App (passes n s)) =
           (if falsy (adminToken s) then LoginView (notice s)
            else AdminApp (the (adminToken s)))" if "2 \<le> n" for n
      unfolding rest [OF that] using p2 l2 b2 v2 by (intro conjI)
    with issued show ?thesis by blast
  qed
  have on: "(\<forall>n. passes n s = s) \<and>
      snd (App s) =
        (if falsy (adminToken s) then LoginView (notice s) else AdminApp (the (adminToken s)))"
    if "startsWith (path s) ''/admin''"
    using that by (simp add: passes_admin_fixed admin_subtree_stable(2))
  show ?thesis
  proof (rule conjI; rule impI)
    assume "siteMode s = Some ''personal'' \<and> \<not> startsWith (path s) ''/admin''"
    then show "path (personalRedirect s (homepageRedirect s s)) = ''/admin'' \<and>
      (\<forall>n\<ge>2. path (passes n s) = ''/admin'' \<and> location (passes n s) = ''/admin'' \<and>
         behind (passes n s) = behind s \<and>
         snd (App (passes n s)) =
           (if falsy (adminToken s) then LoginView (notice s)
            else AdminApp (the (adminToken s))))"
      using off by blast
  next
    assume "siteMode s = Some ''personal'' \<and> startsWith (path s) ''/admin''"
    then show "(\<forall>n. passes n s = s) \<and>
      snd (App s) =
        (if falsy (adminToken s) then LoginView (notice s) else AdminApp (the (adminToken s)))"
      using on by blast
  qed
qed

theorem personal_mode_forces_admin_witness:
  "path (passes 2 (visitor ''/user'' (Some ''personal''))) = ''/admin'' \<and>
   location (passes 2 (visitor ''/user'' (Some ''personal''))) = ''/admin'' \<and>
   behind (passes 2 (visitor ''/user'' (Some ''personal''))) = [] \<and>
   snd (App (passes 2 (visitor ''/user'' (Some ''personal'')))) = LoginView [] \<and>
   path (passes 5 (signedIn ''/login'' (Some ''personal''))) = ''/admin'' \<and>
   snd (App (passes 5 (signedIn ''/login'' (Some ''personal'')))) = LoginView [] \<and>
   passes 3 (visitor ''/admin/channels'' (Some ''personal'')) =
     visitor ''/admin/channels'' (Some ''personal'')"
proof -
  have off: "\<not> startsWith ''/user'' ''/admin''" "\<not> startsWith ''/login'' ''/admin''"
    and on: "startsWith ''/admin/channels'' ''/admin''"
    by (simp_all add: startsWith_def)
  have v: "behind (visitor ''/user'' (Some ''personal'')) = []"
    "notice (visitor ''/user'' (Some ''personal'')) = []"
    "notice (signedIn ''/login'' (Some ''personal'')) = []"
    by (simp_all add: visitor_def signedIn_def)
  note a = personal_mode_forces_admin [of "visitor ''/user'' (Some ''personal'')",
      THEN conjunct1, THEN mp, THEN conjunct2, THEN spec, of 2, THEN mp]
  note b = personal_mode_forces_admin [of "signedIn ''/login'' (Some ''personal'')",
      THEN conjunct1, THEN mp, THEN conjunct2, THEN spec, of 5, THEN mp]
  note c = personal_mode_forces_admin [of "visitor ''/admin/channels'' (Some ''personal'')",
      THEN conjunct2, THEN mp, THEN conjunct1, THEN spec, of 3]
  have a': "path (passes 2 (visitor ''/user'' (Some ''personal''))) = ''/admin'' \<and>
      location (passes 2 (visitor ''/user'' (Some ''personal''))) = ''/admin'' \<and>
      behind (passes 2 (visitor ''/user'' (Some ''personal''))) = [] \<and>
      snd (App (passes 2 (visitor ''/user'' (Some ''personal'')))) = LoginView []"
    using a off by (simp add: visitor_fields v falsy_def)
  have b': "path (passes 5 (signedIn ''/login'' (Some ''personal''))) = ''/admin'' \<and>
      snd (App (passes 5 (signedIn ''/login'' (Some ''personal'')))) = LoginView []"
    using b off by (simp add: signedIn_fields v falsy_def)
  have c': "passes 3 (visitor ''/admin/channels'' (Some ''personal'')) =
      visitor ''/admin/channels'' (Some ''personal'')"
    using c on by (simp add: visitor_fields)
  from a' b' c' show ?thesis by simp
qed

text \<open>
  C3, as stated, fails: \<open>App\<close> has no blank render.  While the site mode is unknown and
  the path is \<open>/admin\<close>, an administrator with a stored token gets the admin console.
\<close>

theorem unknown_mode_renders_admin_console:
  "siteMode ((visitor ''/admin'' None)\<lparr>adminToken := Some ''secret''\<rparr>) = None \<and>
   snd (App ((visitor ''/admin'' None)\<lparr>adminToken := Some ''secret''\<rparr>)) = AdminApp ''secret''"
  by (simp add: view_of_pass visitor_def startsWith_def falsy_def)

text \<open>
  C3, amended.  While the site mode is unknown, a render pass performs neither the
  redirect at the root nor the personal-mode redirect, and still renders a subtree chosen
  from the path and the tokens alone: the admin login form or the admin console for a path
  under \<open>/admin\<close>, the user console for a path under \<open>/user\<close> with a signed-in user, and the
  public view for every other path, the root included.  The path is left as it is, except
  that a \<open>/user\<close> path without a signed-in user is replaced with \<open>/login\<close>.
\<close>

theorem unknown_mode_view:
  assumes "siteMode s = None"
  shows "snd (App s) =
      (if startsWith (path s) ''/admin'' then
         (if falsy (adminToken s) then LoginView (notice s) else AdminApp (the (adminToken s)))
       else if startsWith (path s) ''/user'' \<and> truthy (userToken s) \<and> userRecord s \<noteq> None
         then UserApp (the (userToken s)) (the (userRecord s))
       else PublicApp) \<and>
    path (fst (App s)) =
      (if \<not> startsWith (path s) ''/admin'' \<and> startsWith (path s) ''/user'' \<and>
          (falsy (userToken s) \<or> userRecord s = None)
       then ''/login'' else path s)"
proof -
  have "path s \<noteq> ''/login''" if "startsWith (path s) ''/user''"
    using that by (auto simp add: startsWith_def)
  with assms have "path (fst (App s)) =
      (if \<not> startsWith (path s) ''/admin'' \<and> startsWith (path s) ''/user'' \<and>
          (falsy (userToken s) \<or> userRecord s = None)
       then ''/login'' else path s)"
    by (auto simp add: path_after_pass)
  then show ?thesis by (simp only: view_of_pass simp_thms)
qed

theorem unknown_mode_view_witness:
  "siteMode (visitor ''/'' None) = None \<and>
   snd (App (visitor ''/'' None)) = PublicApp \<and> path (fst (App (visitor ''/'' None))) = ''/''"
  using unknown_mode_view [of "visitor ''/'' None"]
  by (simp add: visitor_fields root_is_no_subtree)

text \<open>
  C6.  Setting the user token to \<open>null\<close> removes the stored token and sets the user
  record to absent.  After a logout the token, the record and the stored token are all
  absent and the path is \<open>/login\<close>; the profile check that follows sends no request and
  leaves token and record absent; and the next render pass shows the public view.
\<close>

theorem logout_clears_token_and_record:
  "userToken (updateUserToken None s) = None \<and>
   userRecord (updateUserToken None s) = None \<and>
   storage (updateUserToken None s) ''user_token'' = None \<and>
   userToken (handleUserLogout s) = None \<and>
   userRecord (handleUserLogout s) = None \<and>
   storage (handleUserLogout s) ''user_token'' = None \<and>
   path (handleUserLogout s) = ''/login'' \<and>
   snd (loadUserEffect (handleUserLogout s)) = None \<and>
   userToken (fst (loadUserEffect (handleUserLogout s))) = None \<and>
   userRecord (fst (loadUserEffect (handleUserLogout s))) = None \<and>
   snd (App (handleUserLogout s)) = PublicApp"
proof -
  have u: "userToken (updateUserToken None s) = None" "userRecord (updateUserToken None s) = None"
    "storage (updateUserToken None s) ''user_token'' = None"
    by (simp_all add: updateUserToken_def)
  have n: "normalizePath ''/login'' = ''/login''"
    by (simp add: normalizePath_def stripTrailingSlashes_def)
  have l: "userToken (handleUserLogout s) = None" "userRecord (handleUserLogout s) = None"
    "storage (handleUserLogout s) ''user_token'' = None" "path (handleUserLogout s) = ''/login''"
    by (simp_all add: handleUserLogout_def navigateTo_def u n)
  have e: "snd (loadUserEffect (handleUserLogout s)) = None"
    "userToken (fst (loadUserEffect (handleUserLogout s))) = None"
    "userRecord (fst (loadUserEffect (handleUserLogout s))) = None"
    by (simp_all add: loadUserEffect_def l falsy_def)
  have v: "snd (App (handleUserLogout s)) = PublicApp"
    by (simp add: view_of_pass l startsWith_def)
  from u l e v show ?thesis by (intro conjI)
qed

theorem logout_clears_token_and_record_witness:
  "userToken (signedIn ''/user'' (Some ''multi'')) = Some ''tok'' \<and>
   storage (signedIn ''/user'' (Some ''multi'')) ''user_token'' = Some ''tok'' \<and>
   snd (App (signedIn ''/user'' (Some ''multi''))) = UserApp ''tok'' ''alice'' \<and>
   userToken (handleUserLogout (signedIn ''/user'' (Some ''multi''))) = None \<and>
   userRecord (handleUserLogout (signedIn ''/user'' (Some ''multi''))) = None \<and>
   storage (handleUserLogout (signedIn ''/user'' (Some ''multi''))) ''user_token'' = None \<and>
   snd (App (handleUserLogout (signedIn ''/user'' (Some ''multi'')))) = PublicApp"
proof -
  have before: "userToken (signedIn ''/user'' (Some ''multi'')) = Some ''tok''"
    "storage (signedIn ''/user'' (Some ''multi'')) ''user_token'' = Some ''tok''"
    "snd (App (signedIn ''/user'' (Some ''multi''))) = UserApp ''tok'' ''alice''"
    by (simp_all add: view_of_pass signedIn_def visitor_def startsWith_def truthy_def)
  from before logout_clears_token_and_record [of "signedIn ''/user'' (Some ''multi'')"]
  show ?thesis by (intro conjI) simp_all
qed

section \<open>The monitoring view: proofs\<close>

lemma fetchData_on_failure:
  assumes "tryBlock r = Inl e"
  shows "fetchData onLoaded r (v, p) = (None, [], v\<lparr>loading := False\<rparr>, p)"
  using assms by (simp add: fetchData_def)

lemma fetchData_on_success:
  assumes "tryBlock r = Inr d"
  shows "fetchData onLoaded r (v, p) = (None, [d], v\<lparr>loading := False\<rparr>, onLoaded d p)"
  using assms by (simp add: fetchData_def)

text \<open>
  C7.  When the fetch started by a change of the time window fails, by a network error,
  a status outside 200 to 299 or a body that does not parse, nothing escapes \<open>fetchData\<close>,
  \<open>onLoaded\<close> is not called, the monitoring data the parent holds is what it was, and the
  loading flag is off again.  (On success \<open>onLoaded\<close> is called once, with the data.)
\<close>

theorem monitoring_fetch_failure_swallowed:
  "handleDaysChange onLoaded d NetworkError (v, p) =
     (None, [], v\<lparr>days := d, loading := False\<rparr>, p) \<and>
   (\<not> ok status \<longrightarrow>
      handleDaysChange onLoaded d (Response status body) (v, p) =
        (None, [], v\<lparr>days := d, loading := False\<rparr>, p)) \<and>
   handleDaysChange onLoaded d (Response status None) (v, p) =
     (None, [], v\<lparr>days := d, loading := False\<rparr>, p) \<and>
   (ok status \<longrightarrow>
      handleDaysChange onLoaded d (Response status (Some x)) (v, p) =
        (None, [x], v\<lparr>days := d, loading := False\<rparr>, onLoaded x p)) \<and>
   fst (handleDaysChange onLoaded d r (v, p)) = None"
proof -
  have net: "tryBlock (NetworkError :: 'a fetched) = Inl FetchRejected"
    by (simp add: tryBlock_def)
  have http: "tryBlock (Response status body) = Inl (HttpStatus status)" if "\<not> ok status"
    using that by (simp add: tryBlock_def)
  have json: "\<exists>e. tryBlock (Response status (None :: 'a option)) = Inl e"
    by (simp add: tryBlock_def)
  have good: "tryBlock (Response status (Some x)) = Inr x" if "ok status"
    using that by (simp add: tryBlock_def)
  have 1: "handleDaysChange onLoaded d NetworkError (v, p) =
      (None, [], v\<lparr>days := d, loading := False\<rparr>, p)"
    by (simp add: handleDaysChange_def fetchData_on_failure [OF net])
  have 2: "\<not> ok status \<longrightarrow> handleDaysChange onLoaded d (Response status body) (v, p) =
      (None, [], v\<lparr>days := d, loading := False\<rparr>, p)"
    by (simp add: handleDaysChange_def fetchData_on_failure [OF http])
  have 3: "handleDaysChange onLoaded d (Response status None) (v, p) =
      (None, [], v\<lparr>days := d, loading := False\<rparr>, p)"
    using json by (auto simp add: handleDaysChange_def fetchData_on_failure)
  have 4: "ok status \<longrightarrow> handleDaysChange onLoaded d (Response status (Some x)) (v, p) =
      (None, [x], v\<lparr>days := d, loading := False\<rparr>, onLoaded x p)"
    by (simp add: handleDaysChange_def fetchData_on_success [OF good])
  have 5: "fst (handleDaysChange onLoaded d r (v, p)) = None"
    by (cases "tryBlock r") (simp_all add: handleDaysChange_def fetchData_def)
  from 1 2 3 4 5 show ?thesis by (intro conjI)
qed

theorem monitoring_fetch_failure_swallowed_witness:
  "\<not> ok 503 \<and>
   handleDaysChange (\<lambda>x p. Some x) 30 (Response 503 (Some ''fresh''))
       (\<lparr>days = 7, loading = False\<rparr>, Some ''shown'') =
     (None, [], \<lparr>days = 30, loading = False\<rparr>, Some ''shown'') \<and>
   ok 200 \<and>
   handleDaysChange (\<lambda>x p. Some x) 30 (Response 200 (Some ''fresh''))
       (\<lparr>days = 7, loading = False\<rparr>, Some ''shown'') =
     (None, [''fresh''], \<lparr>days = 30, loading = False\<rparr>, Some ''fresh'')"
proof -
  have a: "\<not> ok 503" and b: "ok 200" by (simp_all add: ok_def)
  note t = monitoring_fetch_failure_swallowed [of "\<lambda>x p. Some x" 30
      "\<lparr>days = 7, loading = False\<rparr>" "Some ''shown''" _ "Some ''fresh''" "''fresh''"]
  have c: "handleDaysChange (\<lambda>x p. Some x) 30 (Response 503 (Some ''fresh''))
       (\<lparr>days = 7, loading = False\<rparr>, Some ''shown'') =
     (None, [], \<lparr>days = 30, loading = False\<rparr>, Some ''shown'')"
    using t [of 503, THEN conjunct2, THEN conjunct1] a by simp
  have d: "handleDaysChange (\<lambda>x p. Some x) 30 (Response 200 (Some ''fresh''))
       (\<lparr>days = 7, loading = False\<rparr>, Some ''shown'') =
     (None, [''fresh''], \<lparr>days = 30, loading = False\<rparr>, Some ''fresh'')"
    using t [of 200, THEN conjunct2, THEN conjunct2, THEN conjunct2, THEN conjunct1] b by simp
  from a b c d show ?thesis by (intro conjI)
qed

lemma ninety_four_point_nine: "binary64 (949 / 10) = 6677993822460314 / 2 ^ 46"
  by code_simp

text \<open>
  C8.  \<open>rateColor\<close> maps \<open>null\<close> to the neutral colour, a rate of at least 99 to the good
  colour, a rate from 95 up to but not including 99 to the warning colour, and a rate
  under 95 to the critical colour; so \<open>rateColor(99)\<close> is good, \<open>rateColor(95)\<close> is warning,
  \<open>rateColor(94.9)\<close> is critical and \<open>rateColor(null)\<close> is neutral.  The colours are the
  class names the source returns; \<open>94.9\<close> is the binary64 value the literal denotes.
\<close>

theorem rateColor_thresholds:
  "rateColor None = ''text-stone-400'' \<and>
   (99 \<le> r \<longrightarrow> rateColor (Some r) = ''text-green-600'') \<and>
   (95 \<le> r \<and> r < 99 \<longrightarrow> rateColor (Some r) = ''text-yellow-600'') \<and>
   (r < 95 \<longrightarrow> rateColor (Some r) = ''text-red-600'') \<and>
   rateColor (Some 99) = ''text-green-600'' \<and>
   rateColor (Some 95) = ''text-yellow-600'' \<and>
   rateColor (Some (binary64 (949 / 10))) = ''text-red-600''"
  by (simp add: rateColor_def ninety_four_point_nine)

theorem rateColor_thresholds_witness:
  "rateColor (Some 100) = ''text-green-600'' \<and>
   rateColor (Some (197 / 2)) = ''text-yellow-600'' \<and>
   rateColor (Some 0) = ''text-red-600''"
proof -
  have a: "rateColor (Some 100) = ''text-green-600''"
    using rateColor_thresholds [of 100] by simp
  have b: "rateColor (Some (197 / 2)) = ''text-yellow-600''"
    using rateColor_thresholds [of "197 / 2"] by simp
  have c: "rateColor (Some 0) = ''text-red-600''"
    using rateColor_thresholds [of 0] by simp
  from a b c show ?thesis by (intro conjI)
qed

section \<open>Formatting: proofs\<close>

lemma digit_is_digit: "d < 10 \<Longrightarrow> ''0123456789'' ! d \<in> set ''0123456789''"
  by (rule nth_mem) simp

lemma digitsOf_digits: "set (digitsOf n) \<subseteq> set ''0123456789''"
proof (induction n rule: digitsOf.induct)
  case (1 n)
  show ?case
  proof (cases "n < 10")
    case True
    then show ?thesis using digit_is_digit [of n] by (subst digitsOf.simps) simp
  next
    case False
    have "n mod 10 < 10" by simp
    then have "''0123456789'' ! (n mod 10) \<in> set ''0123456789''" by (rule digit_is_digit)
    with False 1 show ?thesis by (subst digitsOf.simps) simp
  qed
qed

text \<open>With \<open>f > 0\<close>, \<open>toFixed\<close> yields digits, a point, and exactly \<open>f\<close> digits.\<close>

lemma toFixed_shape:
  assumes "0 < f"
  shows "\<exists>a b. toFixed x f = (if x < 0 then ''-'' else []) @ a @ ''.'' @ b \<and> a \<noteq> [] \<and>
    length b = f \<and> set a \<subseteq> set ''0123456789'' \<and> set b \<subseteq> set ''0123456789''"
proof -
  define m where "m = digitsOf (nat \<lfloor>\<bar>x\<bar> * 10 ^ f + 1 / 2\<rfloor>)"
  define z where "z = (if length m \<le> f then replicate (f + 1 - length m) (CHR ''0'') @ m else m)"
  have m: "set m \<subseteq> set ''0123456789''" unfolding m_def by (rule digitsOf_digits)
  have zlen: "f < length z" by (simp add: z_def)
  have zset: "set z \<subseteq> set ''0123456789''" using m by (auto simp add: z_def)
  let ?a = "take (length z - f) z" and ?b = "drop (length z - f) z"
  have "toFixed x f = (if x < 0 then ''-'' else []) @ ?a @ ''.'' @ ?b"
    using assms by (simp add: toFixed_def Let_def m_def z_def)
  moreover have "?a \<noteq> []" using zlen by auto
  moreover have "length ?b = f" using zlen by simp
  moreover have "set ?a \<subseteq> set ''0123456789''" using zset set_take_subset by fastforce
  moreover have "set ?b \<subseteq> set ''0123456789''" using zset set_drop_subset by fastforce
  ultimately show ?thesis by blast
qed

lemma one_and_a_half: "binary64 (1500 / 1000) = 3 / 2"
  by code_simp

lemma half_a_cent: "binary64 (5 / 1000) = 5764607523034235 / 2 ^ 60"
  by code_simp

lemma one_cent: "binary64 (1 / 100) = 5764607523034235 / 2 ^ 59"
  by code_simp

lemma one_point_two: "binary64 (12 / 10) = 5404319552844595 / 2 ^ 52"
  by code_simp


lemma floor_rat_numeral: "\<lfloor>numeral a / numeral b :: rat\<rfloor> = numeral a div numeral b"
  using floor_divide_of_int_eq [of "numeral a" "numeral b", where ?'a = rat] by simp

lemma replicate_two: "replicate 2 c = [c, c]"
  by (simp add: numeral_2_eq_2)

lemma small_digits: "digitsOf 50 = ''50''" "digitsOf 120 = ''120''" "digitsOf 15 = ''15''"
  by (simp_all add: digitsOf.simps)



text \<open>
  C9.  \<open>formatNumber(1500)\<close> is \<open>"1.5K"\<close>, \<open>formatCost(0)\<close> is \<open>"$0"\<close>, \<open>formatCost(0.005)\<close> is
  \<open>"$0.0050"\<close> and \<open>formatCost(1.2)\<close> is \<open>"$1.20"\<close>, the decimal literals standing for the
  binary64 values they denote.  In general a count below a thousand is printed as it is,
  a count from a thousand up gets one decimal and the suffix \<open>K\<close>, a count from a million
  up one decimal and the suffix \<open>M\<close>; a cost other than zero gets four decimals when it is
  below \<open>0.01\<close> and two decimals otherwise.  The bounds \<open>2 ^ 53\<close> (every integer up to it is a
  number) and \<open>10 ^ 21\<close> (where \<open>toFixed\<close> changes to exponent notation) keep the arguments
  within what \<open>toFixed\<close> is modelled for.
\<close>

theorem formatting_examples:
  "formatNumber 1500 = ''1.5K'' \<and>
   formatCost 0 = ''$0'' \<and>
   formatCost (binary64 (5 / 1000)) = ''$0.0050'' \<and>
   formatCost (binary64 (12 / 10)) = ''$1.20'' \<and>
   (0 \<le> n \<and> n < 1000 \<longrightarrow> formatNumber n = stringOfInt n) \<and>
   (1000 \<le> n \<and> n < 1000000 \<longrightarrow>
      (\<exists>a b. formatNumber n = a @ ''.'' @ b @ ''K'' \<and> length b = 1 \<and>
         set b \<subseteq> set ''0123456789'')) \<and>
   (1000000 \<le> n \<and> n \<le> 2 ^ 53 \<longrightarrow>
      (\<exists>a b. formatNumber n = a @ ''.'' @ b @ ''M'' \<and> length b = 1 \<and>
         set b \<subseteq> set ''0123456789'')) \<and>
   (c \<noteq> 0 \<and> - (10 ^ 21) < c \<and> c < binary64 (1 / 100) \<longrightarrow>
      (\<exists>a b. formatCost c = ''$'' @ a @ ''.'' @ b \<and> length b = 4 \<and>
         set b \<subseteq> set ''0123456789'')) \<and>
   (binary64 (1 / 100) \<le> c \<and> c < 10 ^ 21 \<longrightarrow>
      (\<exists>a b. formatCost c = ''$'' @ a @ ''.'' @ b \<and> length b = 2 \<and>
         set b \<subseteq> set ''0123456789''))"
proof -
  have e1: "formatNumber 1500 = ''1.5K''"
  proof -
    have "toFixed (3 / 2) 1 = ''1.5''"
      by (simp add: toFixed_def Let_def floor_rat_numeral small_digits)
    then have "toFixed (binary64 (1500 / 1000)) 1 = ''1.5''" by (simp only: one_and_a_half)
    then show ?thesis by (simp add: formatNumber_def)
  qed
  have e2: "formatCost 0 = ''$0''" by (simp add: formatCost_def)
  have e3: "formatCost (binary64 (5 / 1000)) = ''$0.0050''"
  proof -
    have "formatCost (5764607523034235 / 2 ^ 60) = ''$0.0050''"
      by (simp add: formatCost_def one_cent toFixed_def Let_def floor_rat_numeral replicate_two
          small_digits)
    then show ?thesis by (simp only: half_a_cent)
  qed
  have e4: "formatCost (binary64 (12 / 10)) = ''$1.20''"
  proof -
    have "formatCost (5404319552844595 / 2 ^ 52) = ''$1.20''"
      by (simp add: formatCost_def one_cent toFixed_def Let_def floor_rat_numeral small_digits)
    then show ?thesis by (simp only: one_point_two)
  qed
  have shape: "\<exists>a b. toFixed x f = a @ ''.'' @ b \<and> length b = f \<and> set b \<subseteq> set ''0123456789''"
    if "0 < f" for x f
  proof -
    from toFixed_shape [OF that, of x] obtain a b where
      "toFixed x f = ((if x < 0 then ''-'' else []) @ a) @ ''.'' @ b" "length b = f"
      "set b \<subseteq> set ''0123456789''"
      by auto
    then show ?thesis by blast
  qed
  have g1: "0 \<le> n \<and> n < 1000 \<longrightarrow> formatNumber n = stringOfInt n"
    by (simp add: formatNumber_def)
  have g2: "1000 \<le> n \<and> n < 1000000 \<longrightarrow>
      (\<exists>a b. formatNumber n = a @ ''.'' @ b @ ''K'' \<and> length b = 1 \<and>
         set b \<subseteq> set ''0123456789'')"
    using shape [of 1 "binary64 (of_int n / 1000)"] by (auto simp add: formatNumber_def)
  have g3: "1000000 \<le> n \<and> n \<le> 2 ^ 53 \<longrightarrow>
      (\<exists>a b. formatNumber n = a @ ''.'' @ b @ ''M'' \<and> length b = 1 \<and>
         set b \<subseteq> set ''0123456789'')"
    using shape [of 1 "binary64 (of_int n / 1000000)"] by (auto simp add: formatNumber_def)
  have g4: "c \<noteq> 0 \<and> - (10 ^ 21) < c \<and> c < binary64 (1 / 100) \<longrightarrow>
      (\<exists>a b. formatCost c = ''$'' @ a @ ''.'' @ b \<and> length b = 4 \<and>
         set b \<subseteq> set ''0123456789'')"
    using shape [of 4 c] by (auto simp add: formatCost_def)
  have g5: "binary64 (1 / 100) \<le> c \<and> c < 10 ^ 21 \<longrightarrow>
      (\<exists>a b. formatCost c = ''$'' @ a @ ''.'' @ b \<and> length b = 2 \<and>
         set b \<subseteq> set ''0123456789'')"
  proof
    assume "binary64 (1 / 100) \<le> c \<and> c < 10 ^ 21"
    then have h: "binary64 (1 / 100) \<le> c" by simp
    then have "c \<noteq> 0" "\<not> c < binary64 (1 / 100)" by (simp_all add: one_cent)
    then show "\<exists>a b. formatCost c = ''$'' @ a @ ''.'' @ b \<and> length b = 2 \<and>
         set b \<subseteq> set ''0123456789''"
      using shape [of 2 c] by (auto simp add: formatCost_def)
  qed
  from e1 e2 e3 e4 g1 g2 g3 g4 g5 show ?thesis by (intro conjI)
qed

theorem formatting_examples_witness:
  "formatNumber 999 = ''999'' \<and>
   (\<exists>a b. formatNumber 250000 = a @ ''.'' @ b @ ''K'' \<and> length b = 1 \<and>
      set b \<subseteq> set ''0123456789'') \<and>
   (\<exists>a b. formatNumber 2500000 = a @ ''.'' @ b @ ''M'' \<and> length b = 1 \<and>
      set b \<subseteq> set ''0123456789'') \<and>
   (\<exists>a b. formatCost (1 / 1024) = ''$'' @ a @ ''.'' @ b \<and> length b = 4 \<and>
      set b \<subseteq> set ''0123456789'') \<and>
   (\<exists>a b. formatCost (5 / 2) = ''$'' @ a @ ''.'' @ b \<and> length b = 2 \<and>
      set b \<subseteq> set ''0123456789'')"
proof -
  have d: "digitsOf 999 = ''999''" by (simp add: digitsOf.simps)
  have w1: "formatNumber 999 = ''999''"
    using formatting_examples [of 999 0] by (simp add: stringOfInt_def d)
  have w2: "\<exists>a b. formatNumber 250000 = a @ ''.'' @ b @ ''K'' \<and> length b = 1 \<and>
      set b \<subseteq> set ''0123456789''"
    using formatting_examples [of 250000 0] by simp
  have w3: "\<exists>a b. formatNumber 2500000 = a @ ''.'' @ b @ ''M'' \<and> length b = 1 \<and>
      set b \<subseteq> set ''0123456789''"
    using formatting_examples [of 2500000 0] by simp
  have w4: "\<exists>a b. formatCost (1 / 1024) = ''$'' @ a @ ''.'' @ b \<and> length b = 4 \<and>
      set b \<subseteq> set ''0123456789''"
    using formatting_examples [of 0 "1 / 1024"] by (simp add: one_cent)
  have w5: "\<exists>a b. formatCost (5 / 2) = ''$'' @ a @ ''.'' @ b \<and> length b = 2 \<and>
      set b \<subseteq> set ''0123456789''"
    using formatting_examples [of 0 "5 / 2"] by (simp add: one_cent)
  from w1 w2 w3 w4 w5 show ?thesis by (intro conjI)
qed

section \<open>\<open>MiniSparkline\<close>: proofs\<close>

lemma binary64_small:
  "binary64 0 = 0" "binary64 1 = 1" "binary64 2 = 2" "binary64 4 = 4" "binary64 28 = 28"
  "binary64 30 = 30" "binary64 116 = 116"
  by code_simp+

lemma chart_constants:
  "fsub height padding = 30" "fmul padding 2 = 4" "fsub height (fmul padding 2) = 28"
  "fsub width (fmul padding 2) = 116" "fsub height 4 = 28" "fsub width 4 = 116"
  by (simp_all add: fsub_def fmul_def height_def width_def padding_def binary64_small)

lemma fold_max_ge_start: "a \<le> fold max xs (a :: rat)"
proof (induction xs arbitrary: a)
  case Nil
  show ?case by simp
next
  case (Cons x xs)
  have "a \<le> max x a" by simp
  also have "\<dots> \<le> fold max xs (max x a)" by (rule Cons.IH)
  finally show ?case by simp
qed

lemma fold_max_ge_member: "x \<in> set xs \<Longrightarrow> x \<le> fold max xs (a :: rat)"
proof (induction xs arbitrary: a)
  case Nil
  then show ?case by simp
next
  case (Cons y ys)
  show ?case
  proof (cases "x = y")
    case True
    have "x \<le> max y a" using True by simp
    also have "\<dots> \<le> fold max ys (max y a)" by (rule fold_max_ge_start)
    finally show ?thesis by simp
  next
    case False
    with Cons.prems have "x \<in> set ys" by simp
    then show ?thesis using Cons.IH by simp
  qed
qed

lemma fold_max_is_member: "fold max xs (a :: rat) = a \<or> fold max xs a \<in> set xs"
proof (induction xs arbitrary: a)
  case Nil
  show ?case by simp
next
  case (Cons y ys)
  from Cons.IH [of "max y a"] show ?case by (auto simp add: max_def split: if_splits)
qed

lemma maxValue_ge_one: "1 \<le> maxValue values"
  unfolding maxValue_def by (rule fold_max_ge_start)

lemma stepDivisor_ge_one: "1 \<le> stepDivisor values"
  by (simp add: stepDivisor_def)

lemma maxValue_attained:
  assumes "v \<in> set values" and "1 \<le> v"
  shows "maxValue values \<in> set values"
proof -
  from fold_max_is_member [of "values" 1]
  show ?thesis
  proof
    assume one: "fold max values 1 = 1"
    from assms(1) have "v \<le> fold max values 1" by (rule fold_max_ge_member)
    with one assms(2) have "v = 1" by simp
    with assms(1) one show ?thesis by (simp add: maxValue_def)
  next
    assume "fold max values 1 \<in> set values"
    then show ?thesis by (simp add: maxValue_def)
  qed
qed

lemma those_map_Some: "those (map (\<lambda>x. Some (g x)) xs) = Some (map g xs)"
  by (induction xs) simp_all

text \<open>The height at which a value is drawn, given the maximum.\<close>

lemma point_finite:
  assumes "mx \<noteq> 0"
  shows "point step mx v i =
    Some (fadd padding (fmul (of_nat i) step), fsub 30 (fmul (binary64 (v / mx)) 28))"
  using assms by (simp add: point_def jsdiv_def chart_constants)

lemma MiniSparkline_chart:
  assumes "data \<noteq> []"
  defines "values \<equiv> map requests data"
  defines "step \<equiv> binary64 (116 / stepDivisor values)"
  defines "points \<equiv> map (\<lambda>(v, i). (fadd padding (fmul (of_nat i) step),
      fsub 30 (fmul (binary64 (v / maxValue values)) 28))) (zip values [0..<length values])"
  shows "MiniSparkline data =
    Svg points ([(padding, 30)] @ points @
      [(fadd padding (fmul (of_nat (length values) - 1) step), 30)])"
proof -
  have mx: "maxValue values \<noteq> 0" using maxValue_ge_one [of "values"] by simp
  have sd: "stepDivisor values \<noteq> 0" using stepDivisor_ge_one [of "values"] by simp
  have st: "jsdiv (fsub width (fmul padding 2)) (stepDivisor values) = Some step"
    using sd by (simp add: jsdiv_def chart_constants step_def)
  have "map (\<lambda>(v, i). point step (maxValue values) v i) (zip values [0..<length values]) =
      map (\<lambda>p. Some ((\<lambda>(v, i). (fadd padding (fmul (of_nat i) step),
        fsub 30 (fmul (binary64 (v / maxValue values)) 28))) p)) (zip values [0..<length values])"
    by (rule map_cong) (auto simp add: point_finite [OF mx])
  then have "those (map (\<lambda>(v, i). point step (maxValue values) v i)
      (zip values [0..<length values])) = Some points"
    by (simp only: those_map_Some points_def)
  with st assms(1) show ?thesis
    by (simp add: MiniSparkline_def Let_def values_def [symmetric] chart_constants)
qed


lemma drawn_at_top:
  assumes "v \<noteq> 0"
  shows "fsub 30 (fmul (binary64 (v / v)) 28) = padding"
  using assms by (simp add: fsub_def fmul_def binary64_small padding_def)

lemma drawn_at_baseline: "fsub 30 (fmul (binary64 (0 / mx)) 28) = height - padding"
  by (simp add: fsub_def fmul_def binary64_small padding_def height_def)

lemma first_abscissa: "fadd padding (fmul (of_nat 0) st) = padding"
  by (simp add: fadd_def fmul_def binary64_small padding_def)

text \<open>
  C10.  The sparkline never divides by zero.  Without data it renders nothing.  Both
  divisors, \<open>Math.max(...values, 1)\<close> and \<open>Math.max(values.length - 1, 1)\<close>, are at least 1,
  so with data the chart is always drawn with finite coordinates, one point per datum.
  A single datum gives a single point at the left edge; a list of zeros gives a flat line
  on the baseline \<open>height - padding\<close>; and every datum that equals the divisor, as the
  largest request count does once some count is at least 1, is drawn on the top edge of
  the drawing area, \<open>y = padding\<close>.  So for request counts (natural numbers) the chart is
  flat when all are zero and touches the top edge otherwise.
\<close>

theorem sparkline_never_divides_by_zero:
  "MiniSparkline [] = Null \<and>
   1 \<le> maxValue (map requests data) \<and>
   1 \<le> stepDivisor (map requests data) \<and>
   MiniSparkline data \<noteq> NotFinite \<and>
   (data \<noteq> [] \<longrightarrow>
      (\<exists>points area. MiniSparkline data = Svg points area \<and>
         length points = length data \<and>
         (length data = 1 \<longrightarrow> (\<exists>y. points = [(padding, y)])) \<and>
         ((\<forall>d\<in>set data. requests d = 0) \<longrightarrow> (\<forall>p\<in>set points. snd p = height - padding)) \<and>
         (\<forall>i<length data. requests (data ! i) = maxValue (map requests data)
            \<longrightarrow> snd (points ! i) = padding) \<and>
         ((\<exists>d\<in>set data. 1 \<le> requests d) \<longrightarrow> (\<exists>p\<in>set points. snd p = padding)) \<and>
         ((\<forall>d\<in>set data. requests d \<in> \<nat>) \<and> (\<exists>d\<in>set data. requests d \<noteq> 0)
            \<longrightarrow> (\<exists>p\<in>set points. snd p = padding))))"
proof -
  define vs where "vs = map requests data"
  define mx where "mx = maxValue vs"
  define st where "st = binary64 (116 / stepDivisor vs)"
  define f where "f = (\<lambda>(v, i). (fadd padding (fmul (of_nat i) st),
      fsub 30 (fmul (binary64 (v / mx)) 28)))"
  define points where "points = map f (zip vs [0..<length vs])"
  have mx1: "1 \<le> mx" unfolding mx_def by (rule maxValue_ge_one)
  have len: "length points = length data" by (simp add: points_def vs_def)
  have nth: "points ! i = (fadd padding (fmul (of_nat i) st),
      fsub 30 (fmul (binary64 (requests (data ! i) / mx)) 28))" if "i < length data" for i
    using that by (simp add: points_def vs_def f_def)
  have empty: "MiniSparkline [] = Null" by (simp add: MiniSparkline_def)
  have chart: "MiniSparkline data = Svg points ([(padding, 30)] @ points @
      [(fadd padding (fmul (of_nat (length vs) - 1) st), 30)])" if "data \<noteq> []"
    using MiniSparkline_chart [OF that]
    by (simp only: points_def f_def st_def mx_def vs_def)
  have finite: "MiniSparkline data \<noteq> NotFinite"
  proof (cases "data = []")
    case True
    then show ?thesis using empty by simp
  next
    case False
    then show ?thesis using chart by simp
  qed
  have single: "\<exists>y. points = [(padding, y)]" if "length data = 1"
  proof -
    from that len have "points = [points ! 0]"
      by (cases points) (simp_all)
    also have "points ! 0 = (padding, fsub 30 (fmul (binary64 (requests (data ! 0) / mx)) 28))"
      using nth [of 0] that first_abscissa [of st] by simp
    finally show ?thesis by blast
  qed
  have flat: "\<forall>p\<in>set points. snd p = height - padding" if "\<forall>d\<in>set data. requests d = 0"
  proof
    fix p assume "p \<in> set points"
    then obtain i where i: "i < length points" "p = points ! i" by (auto simp add: in_set_conv_nth)
    with len have il: "i < length data" by simp
    with that have "requests (data ! i) = 0" by simp
    with nth [OF il] i(2) drawn_at_baseline [of mx] show "snd p = height - padding" by simp
  qed
  have top: "\<forall>i<length data. requests (data ! i) = mx \<longrightarrow> snd (points ! i) = padding"
  proof (intro allI impI)
    fix i assume il: "i < length data" and eq: "requests (data ! i) = mx"
    from mx1 have "mx \<noteq> 0" by simp
    with nth [OF il] eq drawn_at_top [of mx] show "snd (points ! i) = padding" by simp
  qed
  have touches: "\<exists>p\<in>set points. snd p = padding" if "\<exists>d\<in>set data. 1 \<le> requests d"
  proof -
    from that obtain d where "d \<in> set data" "1 \<le> requests d" by blast
    then have "requests d \<in> set vs" by (simp add: vs_def)
    from this \<open>1 \<le> requests d\<close> have "mx \<in> set vs"
      unfolding mx_def by (rule maxValue_attained)
    then obtain i where il: "i < length data" and eq: "requests (data ! i) = mx"
      by (auto simp add: vs_def in_set_conv_nth)
    with top have "snd (points ! i) = padding" by simp
    moreover have "points ! i \<in> set points" using il len by simp
    ultimately show ?thesis by blast
  qed
  have counts: "\<exists>p\<in>set points. snd p = padding"
    if "(\<forall>d\<in>set data. requests d \<in> \<nat>) \<and> (\<exists>d\<in>set data. requests d \<noteq> 0)"
  proof -
    from that obtain d where d: "d \<in> set data" "requests d \<noteq> 0" "requests d \<in> \<nat>"
      by blast
    from d(3) obtain n where n: "requests d = of_nat n" by (rule Nats_cases)
    with d(2) have "1 \<le> n" by (cases n) simp_all
    then have "(1 :: rat) \<le> of_nat n" by simp
    with n have "1 \<le> requests d" by simp
    with d(1) have "\<exists>d\<in>set data. 1 \<le> requests d" by blast
    then show ?thesis by (rule touches)
  qed
  have body: "\<exists>points area. MiniSparkline data = Svg points area \<and>
         length points = length data \<and>
         (length data = 1 \<longrightarrow> (\<exists>y. points = [(padding, y)])) \<and>
         ((\<forall>d\<in>set data. requests d = 0) \<longrightarrow> (\<forall>p\<in>set points. snd p = height - padding)) \<and>
         (\<forall>i<length data. requests (data ! i) = maxValue (map requests data)
            \<longrightarrow> snd (points ! i) = padding) \<and>
         ((\<exists>d\<in>set data. 1 \<le> requests d) \<longrightarrow> (\<exists>p\<in>set points. snd p = padding)) \<and>
         ((\<forall>d\<in>set data. requests d \<in> \<nat>) \<and> (\<exists>d\<in>set data. requests d \<noteq> 0)
            \<longrightarrow> (\<exists>p\<in>set points. snd p = padding))"
    if "data \<noteq> []"
    using chart [OF that] len single flat top touches counts
    unfolding mx_def vs_def by blast
  from empty maxValue_ge_one stepDivisor_ge_one finite body show ?thesis by blast
qed


lemma threeDays_chart:
  "MiniSparkline threeDays =
     Svg [(2, 16), (60, 2), (118, 30)] [(2, 30), (2, 16), (60, 2), (118, 30), (118, 30)]"
  by code_simp

lemma quietDays_chart:
  "MiniSparkline quietDays = Svg [(2, 30), (118, 30)] [(2, 30), (2, 30), (118, 30), (118, 30)]"
  by code_simp

lemma oneDay_chart: "MiniSparkline oneDay = Svg [(2, 2)] [(2, 30), (2, 2), (2, 30)]"
  by code_simp

theorem sparkline_never_divides_by_zero_witness:
  "MiniSparkline threeDays =
     Svg [(2, 16), (60, 2), (118, 30)] [(2, 30), (2, 16), (60, 2), (118, 30), (118, 30)] \<and>
   (\<exists>p\<in>set [(2, 16), (60, 2), (118, 30 :: rat)]. snd p = padding) \<and>
   MiniSparkline quietDays = Svg [(2, 30), (118, 30)] [(2, 30), (2, 30), (118, 30), (118, 30)] \<and>
   list_all (\<lambda>p. snd p = height - padding) [(2, 30), (118, 30 :: rat)] \<and>
   MiniSparkline oneDay = Svg [(2, 2)] [(2, 30), (2, 2), (2, 30)] \<and>
   (\<exists>y. [(2, 2 :: rat)] = [(padding, y)]) \<and>
   (\<exists>p\<in>set [(2, 2 :: rat)]. snd p = padding)"
proof -
  have busy: "threeDays \<noteq> []" "\<exists>d\<in>set threeDays. 1 \<le> requests d"
    by (simp_all add: threeDays_def)
  have quiet: "quietDays \<noteq> []" "\<forall>d\<in>set quietDays. requests d = 0"
    by (simp_all add: quietDays_def)
  from sparkline_never_divides_by_zero [of threeDays] busy
  obtain points area where "MiniSparkline threeDays = Svg points area"
    "\<exists>p\<in>set points. snd p = padding"
    by blast
  with threeDays_chart have a: "\<exists>p\<in>set [(2, 16), (60, 2), (118, 30 :: rat)]. snd p = padding"
    by simp
  from sparkline_never_divides_by_zero [of quietDays] quiet
  obtain points' area' where "MiniSparkline quietDays = Svg points' area'"
    "\<forall>p\<in>set points'. snd p = height - padding"
    by blast
  with quietDays_chart have b: "list_all (\<lambda>p. snd p = height - padding) [(2, 30), (118, 30 :: rat)]"
    by (simp add: list_all_iff)
  have single: "oneDay \<noteq> []" "length oneDay = 1"
    "(\<forall>d\<in>set oneDay. requests d \<in> \<nat>) \<and> (\<exists>d\<in>set oneDay. requests d \<noteq> 0)"
    by (simp_all add: oneDay_def)
  from sparkline_never_divides_by_zero [of oneDay] single
  obtain points'' area'' where "MiniSparkline oneDay = Svg points'' area''"
    "\<exists>y. points'' = [(padding, y)]" "\<exists>p\<in>set points''. snd p = padding"
    by blast
  with oneDay_chart have c: "\<exists>y. [(2, 2 :: rat)] = [(padding, y)]"
    and d: "\<exists>p\<in>set [(2, 2 :: rat)]. snd p = padding"
    by simp_all
  from threeDays_chart a quietDays_chart b oneDay_chart c d show ?thesis by (intro conjI)
qed

section \<open>Pagination: proofs\<close>

lemma totalPages_ge_one: "1 \<le> totalPages lc s"
  by (simp add: totalPages_def)

lemma totalPages_page_update: "totalPages lc (s\<lparr>page := p\<rparr>) = totalPages lc s"
  by (simp add: totalPages_def total_def filtered_def)

lemma mount_eq: "mount lc ms = \<lparr>models = ms, search = [], pageSize = 12, page = 1\<rparr>"
proof -
  have "min 1 (totalPages lc \<lparr>models = ms, search = [], pageSize = 12, page = 1\<rparr>) = 1"
    using totalPages_ge_one [of lc "\<lparr>models = ms, search = [], pageSize = 12, page = 1\<rparr>"]
    by (simp only: min_def if_True)
  then show ?thesis by (simp add: mount_def Let_def)
qed

lemma settled_mount: "settled lc (mount lc ms)"
  using totalPages_ge_one [of lc "\<lparr>models = ms, search = [], pageSize = 12, page = 1\<rparr>"]
  by (simp add: settled_def mount_eq pageSizeOptions_def)

lemma effects_settle:
  assumes "pageSize s' \<in> set pageSizeOptions" and "1 \<le> page s'"
    and "search s' = search s \<and> pageSize s' = pageSize s \<and> totalPages lc s' = totalPages lc s
           \<longrightarrow> page s' \<le> totalPages lc s'"
  shows "settled lc (clampEffect lc s (resetEffect s s'))"
proof -
  let ?r = "resetEffect s s'"
  have tp: "totalPages lc ?r = totalPages lc s'" by (simp add: resetEffect_def totalPages_page_update)
  have ps: "pageSize ?r = pageSize s'" by (simp add: resetEffect_def)
  have p1: "1 \<le> page ?r" using assms(2) by (simp add: resetEffect_def)
  have one: "1 \<le> totalPages lc s'" by (rule totalPages_ge_one)
  have same: "page ?r \<le> totalPages lc s'" if "totalPages lc s' = totalPages lc s"
  proof (cases "search s' = search s \<and> pageSize s' = pageSize s")
    case True
    with that assms(3) show ?thesis by (simp add: resetEffect_def)
  next
    case False
    with one show ?thesis by (auto simp add: resetEffect_def)
  qed
  show ?thesis
  proof (cases "totalPages lc ?r = totalPages lc s")
    case True
    then have "clampEffect lc s ?r = ?r" by (simp add: clampEffect_def)
    with True tp ps p1 same assms(1) show ?thesis by (simp add: settled_def)
  next
    case False
    then have c: "clampEffect lc s ?r = ?r\<lparr>page := min (page ?r) (totalPages lc ?r)\<rparr>"
      by (simp add: clampEffect_def)
    show ?thesis
      unfolding c settled_def using p1 one tp ps assms(1)
      by (simp add: totalPages_page_update)
  qed
qed

lemma dispatch_settled:
  assumes bpi: "\<forall>p t n. PageNumber n \<in> set (bpi p t) \<longrightarrow> 1 \<le> n \<and> n \<le> t"
    and s: "settled lc s"
  shows "settled lc (dispatch lc bpi s e)"
proof -
  from s have ps: "pageSize s \<in> set pageSizeOptions" and p1: "1 \<le> page s"
    and pt: "page s \<le> totalPages lc s"
    by (simp_all add: settled_def)
  have one: "1 \<le> totalPages lc s" by (rule totalPages_ge_one)
  let ?h = "handler lc bpi e s"
  have a: "pageSize ?h \<in> set pageSizeOptions"
    using ps by (cases e) (simp_all add: handler_def)
  have b: "1 \<le> page ?h"
    using p1 one bpi by (cases e) (auto simp add: handler_def)
  have c: "search ?h = search s \<and> pageSize ?h = pageSize s \<and> totalPages lc ?h = totalPages lc s
      \<longrightarrow> page ?h \<le> totalPages lc ?h"
  proof
    assume same: "search ?h = search s \<and> pageSize ?h = pageSize s \<and> totalPages lc ?h = totalPages lc s"
    have "page ?h \<le> totalPages lc s"
      using pt p1 one bpi by (cases e) (auto simp add: handler_def)
    with same show "page ?h \<le> totalPages lc ?h" by simp
  qed
  from a b c show ?thesis unfolding dispatch_def by (rule effects_settle)
qed

lemma run_settled:
  assumes "\<forall>p t n. PageNumber n \<in> set (bpi p t) \<longrightarrow> 1 \<le> n \<and> n \<le> t"
  shows "settled lc (run lc bpi ms es)"
proof -
  have "settled lc (foldl (dispatch lc bpi) s es)" if "settled lc s" for s
    using that
  proof (induction es arbitrary: s)
    case Nil
    then show ?case by simp
  next
    case (Cons e es)
    from assms Cons.prems have "settled lc (dispatch lc bpi s e)" by (rule dispatch_settled)
    then show ?case using Cons.IH by simp
  qed
  then show ?thesis unfolding run_def using settled_mount by blast
qed


text \<open>
  C5.  In every state the catalog settles in, that is after mounting and after any
  sequence of events, each followed by the two effects, the page lies between 1 and
  \<open>totalPages\<close>, the larger of 1 and the number of matches divided by the page size, rounded
  up; the page size is one of the options.  In particular, narrowing the search to no
  match and widening it again leaves a page that is not beyond the last one.  The page
  buttons are those \<open>buildPageItems\<close> lists, which are page numbers from 1 to the page count;
  the lower-casing function \<open>lc\<close> is arbitrary.
\<close>

theorem page_kept_in_range:
  assumes "\<forall>p t n. PageNumber n \<in> set (bpi p t) \<longrightarrow> 1 \<le> n \<and> n \<le> t"
  shows "1 \<le> page (run lc bpi ms es) \<and>
    page (run lc bpi ms es) \<le> totalPages lc (run lc bpi ms es) \<and>
    totalPages lc (run lc bpi ms es) =
      max 1 \<lceil>(of_int (int (length (filtered lc (run lc bpi ms es)))) :: rat) / of_int (pageSize (run lc bpi ms es))\<rceil> \<and>
    pageSize (run lc bpi ms es) \<in> {12, 24, 48} \<and>
    page (run lc bpi ms (es @ [Input q, Input q'])) \<le> totalPages lc (run lc bpi ms (es @ [Input q, Input q']))"
proof -
  from assms have "settled lc (run lc bpi ms es)" by (rule run_settled)
  moreover from assms have "settled lc (run lc bpi ms (es @ [Input q, Input q']))" by (rule run_settled)
  ultimately show ?thesis
    by (simp add: settled_def totalPages_def total_def pageSizeOptions_def)
qed

lemma everyPage_in_range: "\<forall>p t n. PageNumber n \<in> set (everyPage p t) \<longrightarrow> 1 \<le> n \<and> n \<le> t"
  by (auto simp add: everyPage_def)

theorem page_kept_in_range_witness:
  "page (run asciiLower everyPage (catalog 30) [ClickPage 3]) = 3 \<and>
   totalPages asciiLower (run asciiLower everyPage (catalog 30) [ClickPage 3, Input ''zzz'']) = 1 \<and>
   totalPages asciiLower (run asciiLower everyPage (catalog 30) [ClickPage 3, Input ''zzz'', Input []]) = 3 \<and>
   page (run asciiLower everyPage (catalog 30) [ClickPage 3, Input ''zzz'', Input []]) \<le>
     totalPages asciiLower (run asciiLower everyPage (catalog 30) [ClickPage 3, Input ''zzz'', Input []]) \<and>
   totalPages asciiLower (run asciiLower everyPage (catalog 30) [ClickPage 3, NewModels (catalog 5)]) = 1 \<and>
   page (run asciiLower everyPage (catalog 30) [ClickPage 3, NewModels (catalog 5)]) \<le>
     totalPages asciiLower (run asciiLower everyPage (catalog 30) [ClickPage 3, NewModels (catalog 5)])"
proof -
  have a: "page (run asciiLower everyPage (catalog 30) [ClickPage 3]) = 3"
    by code_simp
  have b: "totalPages asciiLower (run asciiLower everyPage (catalog 30) [ClickPage 3, Input ''zzz'']) = 1"
    by code_simp
  have c: "totalPages asciiLower (run asciiLower everyPage (catalog 30) [ClickPage 3, Input ''zzz'', Input []]) = 3"
    by code_simp
  have d: "page (run asciiLower everyPage (catalog 30) [ClickPage 3, Input ''zzz'', Input []]) \<le>
      totalPages asciiLower (run asciiLower everyPage (catalog 30) [ClickPage 3, Input ''zzz'', Input []])"
    using page_kept_in_range [OF everyPage_in_range, of asciiLower "catalog 30" "[ClickPage 3]" "''zzz''" "[]",
        THEN conjunct2, THEN conjunct2, THEN conjunct2, THEN conjunct2]
    by simp
  have e: "totalPages asciiLower (run asciiLower everyPage (catalog 30) [ClickPage 3, NewModels (catalog 5)]) = 1"
    by code_simp
  have f: "page (run asciiLower everyPage (catalog 30) [ClickPage 3, NewModels (catalog 5)]) \<le>
      totalPages asciiLower (run asciiLower everyPage (catalog 30) [ClickPage 3, NewModels (catalog 5)])"
    by (rule page_kept_in_range [OF everyPage_in_range, of asciiLower "catalog 30"
          "[ClickPage 3, NewModels (catalog 5)]" "[]" "[]", THEN conjunct2, THEN conjunct1])
  from a b c d e f show ?thesis by (intro conjI)
qed

end
